theory Spec2Isabelle
  imports Complex_Main "HOL-Library.AList" "HOL-Library.Sublist"
begin

section \<open>Python strings and values\<close>

text \<open>
  Strings are lists of \<^typ>\<open>char\<close>; the model is exact for ASCII text. Python's \<open>int\<close> is
  \<^typ>\<open>int\<close>. The floats of the validation and retrieval agents and of the configuration are
  doubles with their rounding (section \<open>Python floats\<close>); the confidences, amounts and link
  strengths of the decision and mapping agents are \<^typ>\<open>real\<close> numbers, without rounding.
\<close>

definition py_whitespace :: "char list" where
  "py_whitespace = [CHR 0x09, CHR 0x0A, CHR 0x0B, CHR 0x0C, CHR 0x0D,
                    CHR 0x1C, CHR 0x1D, CHR 0x1E, CHR 0x1F, CHR 0x20]"

definition isspace :: "char \<Rightarrow> bool" where
  "isspace c = (c \<in> set py_whitespace)"

definition isdigit :: "char \<Rightarrow> bool" where
  "isdigit c = (c \<in> set ''0123456789'')"

definition lower_char :: "char \<Rightarrow> char" where
  "lower_char c =
     (case map_of (zip ''ABCDEFGHIJKLMNOPQRSTUVWXYZ'' ''abcdefghijklmnopqrstuvwxyz'') c of
        Some d \<Rightarrow> d | None \<Rightarrow> c)"

text \<open>\<open>s.lower()\<close>\<close>
definition py_lower :: "string \<Rightarrow> string" where
  "py_lower s = map lower_char s"

text \<open>\<open>sub in s\<close> for two strings.\<close>
fun py_contains :: "string \<Rightarrow> string \<Rightarrow> bool" where
  "py_contains sub [] = (sub = [])"
| "py_contains sub (c # cs) = (prefix sub (c # cs) \<or> py_contains sub cs)"

text \<open>\<open>s.strip()\<close>\<close>
definition py_strip :: "string \<Rightarrow> string" where
  "py_strip s = rev (dropWhile isspace (rev (dropWhile isspace s)))"

text \<open>\<open>s.split()\<close>: the maximal runs of non-whitespace characters.\<close>
fun py_split_aux :: "string \<Rightarrow> string \<Rightarrow> string list" where
  "py_split_aux w [] = (if w = [] then [] else [w])"
| "py_split_aux w (c # cs) =
     (if isspace c then (if w = [] then py_split_aux [] cs else w # py_split_aux [] cs)
      else py_split_aux (w @ [c]) cs)"

definition py_split :: "string \<Rightarrow> string list" where
  "py_split s = py_split_aux [] s"

text \<open>\<open>sep.join(xs)\<close>\<close>
fun py_join :: "string \<Rightarrow> string list \<Rightarrow> string" where
  "py_join sep [] = []"
| "py_join sep [x] = x"
| "py_join sep (x # y # ys) = x @ sep @ py_join sep (y # ys)"

definition digit_char :: "nat \<Rightarrow> char" where
  "digit_char n = ''0123456789abcdef'' ! (n mod 16)"

definition digit_val :: "char \<Rightarrow> int" where
  "digit_val c = (case map_of (zip ''0123456789'' [0, 1, 2, 3, 4, 5, 6, 7, 8, 9]) c of
                    Some d \<Rightarrow> d | None \<Rightarrow> 0)"

fun str_of_nat :: "nat \<Rightarrow> string" where
  "str_of_nat n = (if n < 10 then [digit_char n] else str_of_nat (n div 10) @ [digit_char (n mod 10)])"

declare str_of_nat.simps [simp del]

text \<open>\<open>str(n)\<close> for an integer.\<close>
definition str_of_int :: "int \<Rightarrow> string" where
  "str_of_int i = (if i < 0 then CHR ''-'' # str_of_nat (nat (- i)) else str_of_nat (nat i))"

text \<open>
  \<open>repr(s)\<close> for a string: double quotes when the text holds a single quote and no double
  quote, single quotes otherwise; backslash, the chosen quote, tab, newline, carriage return
  and the other control characters are escaped.
\<close>
definition repr_char :: "char \<Rightarrow> char \<Rightarrow> string" where
  "repr_char q c =
     (if c = CHR 0x5C then [CHR 0x5C, CHR 0x5C]
      else if c = q then [CHR 0x5C, q]
      else if c = CHR 0x09 then [CHR 0x5C, CHR ''t'']
      else if c = CHR 0x0A then [CHR 0x5C, CHR ''n'']
      else if c = CHR 0x0D then [CHR 0x5C, CHR ''r'']
      else if (of_char c :: nat) < 32 \<or> c = CHR 0x7F
        then [CHR 0x5C, CHR ''x'', digit_char (of_char c div 16), digit_char (of_char c mod 16)]
      else [c])"

definition py_repr :: "string \<Rightarrow> string" where
  "py_repr s =
     (let q = (if CHR 0x27 \<in> set s \<and> CHR 0x22 \<notin> set s then CHR 0x22 else CHR 0x27)
      in q # concat (map (repr_char q) s) @ [q])"

text \<open>
  The values an entity dictionary holds: the query parser stores a string or a list of
  strings; callers may also pass integers.
\<close>
datatype pyval = PStr string | PList "string list" | PInt int

text \<open>\<open>str(v)\<close>\<close>
fun py_str :: "pyval \<Rightarrow> string" where
  "py_str (PStr s) = s"
| "py_str (PList xs) = ''['' @ py_join '', '' (map py_repr xs) @ '']''"
| "py_str (PInt i) = str_of_int i"

text \<open>\<open>bool(v)\<close>\<close>
fun truthy :: "pyval \<Rightarrow> bool" where
  "truthy (PStr s) = (s \<noteq> [])"
| "truthy (PList xs) = (xs \<noteq> [])"
| "truthy (PInt i) = (i \<noteq> 0)"

text \<open>The exceptions the modelled code can raise; each carries \<open>str(e)\<close>.\<close>
datatype py_error =
    ValueError string | IndexError string | AttributeError string | TypeError string
  | OverflowError string | ZeroDivisionError string

fun error_text :: "py_error \<Rightarrow> string" where
  "error_text (ValueError m) = m"
| "error_text (IndexError m) = m"
| "error_text (AttributeError m) = m"
| "error_text (TypeError m) = m"
| "error_text (OverflowError m) = m"
| "error_text (ZeroDivisionError m) = m"

text \<open>
  \<open>int(s)\<close>: surrounding whitespace is ignored, then an optional sign and decimal digits, where
  single underscores may stand between digits.
\<close>
fun int_body_ok :: "bool \<Rightarrow> string \<Rightarrow> bool" where
  "int_body_ok prev [] = prev"
| "int_body_ok prev (c # cs) =
     (if isdigit c then int_body_ok True cs
      else if c = CHR ''_'' \<and> prev then int_body_ok False cs
      else False)"

definition digits_value :: "string \<Rightarrow> int" where
  "digits_value ds = foldl (\<lambda>acc c. 10 * acc + digit_val c) 0 (filter isdigit ds)"

definition py_int :: "string \<Rightarrow> py_error + int" where
  "py_int s =
     (let t = py_strip s;
          bad = Inl (ValueError (''invalid literal for int() with base 10: '' @ py_repr s))
      in case t of
           [] \<Rightarrow> bad
         | c # cs \<Rightarrow>
             if c = CHR ''-'' then (if int_body_ok False cs then Inr (- digits_value cs) else bad)
             else if c = CHR ''+'' then (if int_body_ok False cs then Inr (digits_value cs) else bad)
             else if int_body_ok False t then Inr (digits_value t) else bad)"

text \<open>Entity dictionaries are association lists; \<open>d.get(k)\<close> is \<^const>\<open>map_of\<close>.\<close>
type_synonym entities = "(string \<times> pyval) list"

section \<open>Schemas\<close>

text \<open>
  A \<open>SourceClause\<close>, for the type \<open>'s\<close> of its score: the retrieval agent computes the score
  as a double; the agents that read it take it as a real number.
\<close>
record 's SourceClause =
  document_name :: string
  clause_id :: string
  clause_text :: string
  relevance_score :: 's
  page_number :: "int option"

record ValidationResult =
  is_valid :: bool
  violated_rules :: "string list"
  satisfied_rules :: "string list"
  warnings :: "string list"
  validation_details :: "(string \<times> string \<times> string) list"

section \<open>Python floats\<close>

text \<open>
  A Python \<open>float\<close> is an IEEE 754 double. \<open>Fin x\<close> is the finite double of value \<open>x\<close> (the
  two zeros are one value: no comparison tells them apart), \<open>PInf\<close> and \<open>NInf\<close> are the
  infinities and \<open>NaN\<close> is not-a-number. Every arithmetic operation computes the exact result and
  rounds it to the nearest double, ties to even.
\<close>
datatype pyfloat = Fin real | PInf | NInf | NaN

text \<open>The integer \<open>e\<close> with \<open>2^e \<le> a < 2^(e+1)\<close>, for a positive \<open>a\<close>.\<close>
function floor_log2 :: "real \<Rightarrow> int" where
  "floor_log2 a =
     (if a \<le> 0 then 0
      else if 2 \<le> a then floor_log2 (a / 2) + 1
      else if a < 1 then floor_log2 (a * 2) - 1
      else 0)"
  by pat_completeness auto
termination
proof (relation "measure (\<lambda>a. 2 * nat \<lceil>1 / a\<rceil> + nat \<lceil>a\<rceil>)")
  show "wf (measure (\<lambda>a. 2 * nat \<lceil>1 / a\<rceil> + nat \<lceil>a\<rceil>))" by simp
next
  fix a :: real
  assume "\<not> a \<le> 0" "2 \<le> a"
  then have a: "2 \<le> a" by simp
  have c1: "\<lceil>1 / (a / 2)\<rceil> = 1" using a by (intro ceiling_unique) auto
  have c2: "\<lceil>1 / a\<rceil> = 1" using a by (intro ceiling_unique) auto
  have "\<lceil>a / 2\<rceil> < \<lceil>a\<rceil>" using a by (simp add: ceiling_less_iff) linarith
  moreover have "0 < \<lceil>a / 2\<rceil>" using a by (simp add: ceiling_less_iff)
  ultimately have "nat \<lceil>a / 2\<rceil> < nat \<lceil>a\<rceil>" by linarith
  with c1 c2 show "(a / 2, a) \<in> measure (\<lambda>a. 2 * nat \<lceil>1 / a\<rceil> + nat \<lceil>a\<rceil>)" by simp
next
  fix a :: real
  assume "\<not> a \<le> 0" "\<not> 2 \<le> a" "a < 1"
  then have a: "0 < a" "a < 1" by simp_all
  have c1: "\<lceil>a\<rceil> = 1" using a by (intro ceiling_unique) auto
  have c2: "\<lceil>a * 2\<rceil> \<le> 2" using a by (simp add: ceiling_le_iff)
  have x: "1 < 1 / a" using a by simp
  then have c: "2 \<le> \<lceil>1 / a\<rceil>" by linarith
  have "1 / (a * 2) = (1 / a) / 2" by simp
  also have "\<dots> \<le> of_int \<lceil>1 / a\<rceil> / 2" by (simp add: divide_right_mono)
  also have "\<dots> \<le> of_int (\<lceil>1 / a\<rceil> - 1)" using c by simp
  finally have "1 / (a * 2) \<le> of_int (\<lceil>1 / a\<rceil> - 1)" .
  then have "\<lceil>1 / (a * 2)\<rceil> \<le> \<lceil>1 / a\<rceil> - 1" by (rule ceiling_le)
  moreover have "0 < \<lceil>1 / (a * 2)\<rceil>" using a by (simp add: ceiling_less_iff)
  ultimately have "nat \<lceil>1 / (a * 2)\<rceil> + 1 \<le> nat \<lceil>1 / a\<rceil>" by linarith
  moreover have "nat \<lceil>a * 2\<rceil> \<le> nat \<lceil>a\<rceil> + 1" using c1 c2 by linarith
  ultimately show "(a * 2, a) \<in> measure (\<lambda>a. 2 * nat \<lceil>1 / a\<rceil> + nat \<lceil>a\<rceil>)"
    unfolding in_measure by linarith
qed

declare floor_log2.simps [simp del]

text \<open>The integer nearest to \<open>x\<close>, the even one of two that are equally near.\<close>
definition rne :: "real \<Rightarrow> int" where
  "rne x =
     (let f = \<lfloor>x\<rfloor>; d = x - of_int f
      in if d < 1 / 2 then f else if 1 / 2 < d then f + 1 else if even f then f else f + 1)"

text \<open>
  The distance between the doubles around a positive \<open>a\<close>: 52 bits below the leading one, and
  \<open>2^-1074\<close> below the smallest normal number \<open>2^-1022\<close>.
\<close>
definition ulp :: "real \<Rightarrow> real" where
  "ulp a = 2 powi (max (floor_log2 a) (- 1022) - 52)"

definition round_pos :: "real \<Rightarrow> real" where
  "round_pos a = of_int (rne (a / ulp a)) * ulp a"

text \<open>Rounding to the nearest double, were the exponent unbounded above.\<close>
definition round_finite :: "real \<Rightarrow> real" where
  "round_finite x = (if x = 0 then 0 else if 0 < x then round_pos x else - round_pos (- x))"

text \<open>\<open>2^1024\<close>: a result that rounds to it or beyond overflows.\<close>
definition overflow_threshold :: real where
  "overflow_threshold = 179769313486231590772930519078902473361797697894230657273430081157732675805500963132708477322407536021120113879871393357658789768814416622492847430639474124377767893424865485276302219601246094119453082952085005768838150682342462881473913110540827237163350510684586298239947245938479716304835356329624224137216"

text \<open>
  The double of a real number: of a decimal literal such as \<open>0.7\<close>, of the exact result of an
  operation, and of the text \<open>float(s)\<close> converts. A literal that is a double itself, such as
  \<open>1.0\<close>, is written \<open>Fin 1\<close>.
\<close>
definition float_of_real :: "real \<Rightarrow> pyfloat" where
  "float_of_real x =
     (let r = round_finite x
      in if overflow_threshold \<le> r then PInf
         else if r \<le> - overflow_threshold then NInf
         else Fin r)"

fun is_nan :: "pyfloat \<Rightarrow> bool" where
  "is_nan NaN = True"
| "is_nan v = False"

text \<open>\<open>a <= b\<close>; every comparison with \<open>NaN\<close> but \<open>!=\<close> is false.\<close>
fun fle :: "pyfloat \<Rightarrow> pyfloat \<Rightarrow> bool" where
  "fle NaN b = False"
| "fle a NaN = False"
| "fle NInf b = True"
| "fle a PInf = True"
| "fle (Fin x) (Fin y) = (x \<le> y)"
| "fle a b = False"

text \<open>\<open>a < b\<close>\<close>
definition flt :: "pyfloat \<Rightarrow> pyfloat \<Rightarrow> bool" where
  "flt a b = (fle a b \<and> \<not> fle b a)"

text \<open>\<open>a >= b\<close>\<close>
definition fge :: "pyfloat \<Rightarrow> pyfloat \<Rightarrow> bool" where
  "fge a b = fle b a"

text \<open>\<open>a > b\<close>\<close>
definition fgt :: "pyfloat \<Rightarrow> pyfloat \<Rightarrow> bool" where
  "fgt a b = flt b a"

text \<open>\<open>a == b\<close>\<close>
definition feq :: "pyfloat \<Rightarrow> pyfloat \<Rightarrow> bool" where
  "feq a b = (fle a b \<and> fle b a)"

text \<open>\<open>a != b\<close>\<close>
definition fne :: "pyfloat \<Rightarrow> pyfloat \<Rightarrow> bool" where
  "fne a b = (\<not> feq a b)"

fun fsign :: "pyfloat \<Rightarrow> int" where
  "fsign (Fin x) = (if 0 < x then 1 else if x < 0 then - 1 else 0)"
| "fsign PInf = 1"
| "fsign NInf = - 1"
| "fsign NaN = 0"

text \<open>The infinity of a sign; \<open>NaN\<close> for the sign 0 (of \<open>0 * inf\<close> and \<open>0 / 0\<close>).\<close>
definition signed_inf :: "int \<Rightarrow> pyfloat" where
  "signed_inf s = (if 0 < s then PInf else if s < 0 then NInf else NaN)"

text \<open>\<open>a + b\<close>\<close>
fun fadd :: "pyfloat \<Rightarrow> pyfloat \<Rightarrow> pyfloat" where
  "fadd (Fin x) (Fin y) = float_of_real (x + y)"
| "fadd NaN b = NaN"
| "fadd a NaN = NaN"
| "fadd PInf NInf = NaN"
| "fadd NInf PInf = NaN"
| "fadd PInf b = PInf"
| "fadd NInf b = NInf"
| "fadd a PInf = PInf"
| "fadd a NInf = NInf"

text \<open>\<open>a * b\<close>\<close>
fun fmul :: "pyfloat \<Rightarrow> pyfloat \<Rightarrow> pyfloat" where
  "fmul (Fin x) (Fin y) = float_of_real (x * y)"
| "fmul NaN b = NaN"
| "fmul a NaN = NaN"
| "fmul a b = signed_inf (fsign a * fsign b)"

text \<open>
  The quotient of IEEE 754, which numpy's scalars compute: a division by zero gives an
  infinity or \<open>NaN\<close> (numpy warns and does not raise). The zero divisor counts as positive.
\<close>
fun np_divide :: "pyfloat \<Rightarrow> pyfloat \<Rightarrow> pyfloat" where
  "np_divide (Fin x) (Fin y) =
     (if y = 0 then signed_inf (fsign (Fin x)) else float_of_real (x / y))"
| "np_divide NaN b = NaN"
| "np_divide a NaN = NaN"
| "np_divide (Fin x) b = Fin 0"
| "np_divide a (Fin y) = signed_inf (fsign a * (if y < 0 then - 1 else 1))"
| "np_divide a b = NaN"

text \<open>\<open>min(a, b)\<close>: the first argument unless the second is smaller.\<close>
definition py_min :: "pyfloat \<Rightarrow> pyfloat \<Rightarrow> pyfloat" where
  "py_min a b = (if flt b a then b else a)"

text \<open>
  \<open>xs.sort(key=key, reverse=True)\<close>, for keys that are no \<open>NaN\<close>: a stable sort in descending
  order of the key.
\<close>
fun insert_desc :: "('a \<Rightarrow> pyfloat) \<Rightarrow> 'a \<Rightarrow> 'a list \<Rightarrow> 'a list" where
  "insert_desc key x [] = [x]"
| "insert_desc key x (y # ys) =
     (if fge (key x) (key y) then x # y # ys else y # insert_desc key x ys)"

definition sort_desc :: "('a \<Rightarrow> pyfloat) \<Rightarrow> 'a list \<Rightarrow> 'a list" where
  "sort_desc key xs = foldr (insert_desc key) xs []"

text \<open>A value of the type that is a double: rounding leaves it as it is.\<close>
fun is_double :: "pyfloat \<Rightarrow> bool" where
  "is_double (Fin x) = (round_finite x = x \<and> \<bar>x\<bar> < overflow_threshold)"
| "is_double v = True"

text \<open>\<open>float(i)\<close> for an integer: \<open>OverflowError\<close> when the nearest double is none.\<close>
definition float_of_int :: "int \<Rightarrow> py_error + pyfloat" where
  "float_of_int i =
     (case float_of_real (of_int i) of
        Fin x \<Rightarrow> Inr (Fin x)
      | v \<Rightarrow> Inl (OverflowError ''int too large to convert to float''))"

text \<open>\<open>a / b\<close> for Python floats: a zero divisor raises.\<close>
definition py_truediv :: "pyfloat \<Rightarrow> pyfloat \<Rightarrow> py_error + pyfloat" where
  "py_truediv a b =
     (if feq b (Fin 0) then Inl (ZeroDivisionError ''float division by zero'')
      else Inr (np_divide a b))"

section \<open>Decision agent (\<open>src/agents/decision_agent.py\<close>)\<close>

record DecisionContext =
  entities :: entities
  source_clauses :: "real SourceClause list"
  validation_result :: ValidationResult
  query_type :: string
  urgency_level :: string

text \<open>
  One entry of \<open>decision_factors\<close>. The nested \<open>details\<close> dictionary of the source (counts that
  nothing reads again) is left out; \<open>supports_coverage\<close> is present for the clause factor only.
\<close>
record factor =
  factor_name :: string
  status :: string
  confidence_impact :: real
  supports_coverage :: "bool option"
  description :: string

record risk_factor =
  risk_type :: string
  level :: string
  risk_description :: string

record risk_assessment =
  overall_risk :: string
  factors :: "risk_factor list"
  risk_score :: "real option"

record DecisionResult =
  decision :: string
  confidence_score :: real
  amount :: "real option"
  justification :: string
  decision_factors :: "factor list"
  risk_assessment :: risk_assessment

text \<open>
  Python's formatting of a float (\<open>:.1%\<close> and \<open>:.2f\<close>) is a parameter of the model.
\<close>
record float_format =
  fmt_percent1 :: "real \<Rightarrow> string"
  fmt_fixed2 :: "real \<Rightarrow> string"

definition count_terms :: "string list \<Rightarrow> string \<Rightarrow> nat" where
  "count_terms terms txt = length (filter (\<lambda>t. py_contains t txt) terms)"

definition evaluate_validation_factor :: "ValidationResult \<Rightarrow> factor" where
  "evaluate_validation_factor vr =
     (if is_valid vr then
        \<lparr>factor_name = ''validation_compliance'', status = ''positive'',
         confidence_impact = 0.8, supports_coverage = None,
         description = ''All validation rules satisfied''\<rparr>
      else
        let critical_violations =
              filter (\<lambda>r. py_contains ''age'' (py_lower r) \<or> py_contains ''excluded'' (py_lower r))
                (violated_rules vr)
        in \<lparr>factor_name = ''validation_compliance'',
            status = (if critical_violations \<noteq> [] then ''negative'' else ''cautionary''),
            confidence_impact = (if critical_violations \<noteq> [] then 0.2 else 0.5),
            supports_coverage = None,
            description = str_of_nat (length (violated_rules vr)) @ '' validation rules violated''\<rparr>)"

text \<open>\<open>isinstance(value, str)\<close>\<close>
fun is_str :: "pyval \<Rightarrow> bool" where
  "is_str (PStr s) = True"
| "is_str v = False"

definition entity_mentioned :: "entities \<Rightarrow> string \<Rightarrow> bool" where
  "entity_mentioned ents txt =
     list_ex (\<lambda>v. py_contains (py_lower (py_str v)) txt) (filter is_str (map snd ents))"

definition analyze_clause_sentiment :: "real SourceClause \<Rightarrow> entities \<Rightarrow> string" where
  "analyze_clause_sentiment clause ents =
     (let txt = py_lower (clause_text clause);
          positive_score =
            count_terms [''covered'', ''eligible'', ''benefits'', ''included'', ''reimburse'', ''approved''] txt;
          negative_score =
            count_terms [''excluded'', ''not covered'', ''limitation'', ''restricted'', ''denied''] txt
      in if entity_mentioned ents txt then
           (if positive_score > negative_score then ''positive''
            else if negative_score > positive_score then ''negative''
            else ''neutral'')
         else ''neutral'')"

definition evaluate_clause_support :: "real SourceClause list \<Rightarrow> entities \<Rightarrow> factor" where
  "evaluate_clause_support clauses ents =
     (if clauses = [] then
        \<lparr>factor_name = ''clause_support'', status = ''negative'', confidence_impact = 0.3,
         supports_coverage = Some False, description = ''No relevant policy clauses found''\<rparr>
      else
        let sentiments = map (\<lambda>c. analyze_clause_sentiment c ents) clauses;
            positive_clauses = length (filter (\<lambda>s. s = ''positive'') sentiments);
            negative_clauses = length (filter (\<lambda>s. s = ''negative'') sentiments)
        in if positive_clauses > negative_clauses then
             \<lparr>factor_name = ''clause_support'', status = ''positive'',
              confidence_impact = min 1.0 (0.7 + real positive_clauses * 0.1),
              supports_coverage = Some True,
              description = str_of_nat positive_clauses @ '' clauses support coverage''\<rparr>
           else if negative_clauses > positive_clauses then
             \<lparr>factor_name = ''clause_support'', status = ''negative'',
              confidence_impact = min 1.0 0.3,
              supports_coverage = Some False,
              description = str_of_nat negative_clauses @ '' clauses indicate exclusion''\<rparr>
           else
             \<lparr>factor_name = ''clause_support'', status = ''neutral'',
              confidence_impact = min 1.0 0.5,
              supports_coverage = Some False,
              description = ''Mixed or unclear clause support''\<rparr>)"

text \<open>\<open>entity in entities and entities[entity]\<close>\<close>
definition present :: "entities \<Rightarrow> string \<Rightarrow> bool" where
  "present ents k = (case map_of ents k of None \<Rightarrow> False | Some v \<Rightarrow> truthy v)"

definition evaluate_entity_completeness :: "float_format \<Rightarrow> entities \<Rightarrow> factor" where
  "evaluate_entity_completeness F ents =
     (let present_required = length (filter (present ents) [''age'', ''procedure'']);
          present_optional = length (filter (present ents) [''gender'', ''location'', ''policy_duration'']);
          completeness_score = (real present_required / 2) * 0.8 + (real present_optional / 3) * 0.2
      in \<lparr>factor_name = ''entity_completeness'',
          status = (if completeness_score \<ge> 0.8 then ''complete''
                    else if completeness_score \<ge> 0.6 then ''adequate'' else ''incomplete''),
          confidence_impact = (if completeness_score \<ge> 0.8 then 0.9
                               else if completeness_score \<ge> 0.6 then 0.7 else 0.4),
          supports_coverage = None,
          description = ''Entity completeness: '' @ fmt_percent1 F completeness_score\<rparr>)"

text \<open>
  \<open>int(str(v).split()[0]) if v else default\<close>: the expression both \<open>_assess_risk\<close> and
  \<open>_calculate_coverage_amount\<close> read the age with. The empty split raises \<open>IndexError\<close>, a
  first word that is no integer literal raises \<open>ValueError\<close>.
\<close>
definition age_of :: "pyval \<Rightarrow> int \<Rightarrow> py_error + int" where
  "age_of v dflt =
     (if truthy v then
        (case py_split (py_str v) of
           [] \<Rightarrow> Inl (IndexError ''list index out of range'')
         | w # ws \<Rightarrow> py_int w)
      else Inr dflt)"

definition age_risk :: "entities \<Rightarrow> py_error + risk_factor list" where
  "age_risk ents =
     (case map_of ents ''age'' of
        None \<Rightarrow> Inr []
      | Some v \<Rightarrow>
          (case age_of v 0 of
             Inl e \<Rightarrow> Inl e
           | Inr age \<Rightarrow>
               if age > 70 then
                 Inr [\<lparr>risk_type = ''age_risk'', level = ''high'',
                       risk_description = ''Advanced age increases claim probability''\<rparr>]
               else if age < 25 then
                 Inr [\<lparr>risk_type = ''age_risk'', level = ''low'',
                       risk_description = ''Young age reduces claim probability''\<rparr>]
               else Inr []))"

definition procedure_risk :: "entities \<Rightarrow> risk_factor list" where
  "procedure_risk ents =
     (case map_of ents ''procedure'' of
        None \<Rightarrow> []
      | Some v \<Rightarrow>
          if list_ex (\<lambda>p. py_contains p (py_lower (py_str v)))
               [''surgery'', ''cardiac'', ''brain'', ''cancer'', ''transplant'']
          then [\<lparr>risk_type = ''procedure_risk'', level = ''high'',
                 risk_description = ''High-risk medical procedure''\<rparr>]
          else [])"

definition policy_duration_risk :: "entities \<Rightarrow> risk_factor list" where
  "policy_duration_risk ents =
     (case map_of ents ''policy_duration'' of
        None \<Rightarrow> []
      | Some v \<Rightarrow>
          let duration_str = py_lower (py_str v)
          in if py_contains ''month'' duration_str \<and> digits_value duration_str < 6
             then [\<lparr>risk_type = ''policy_duration_risk'', level = ''medium'',
                    risk_description = ''New policy with limited duration''\<rparr>]
             else [])"

definition assess_risk :: "DecisionContext \<Rightarrow> py_error + risk_assessment" where
  "assess_risk ctx =
     (case age_risk (entities ctx) of
        Inl e \<Rightarrow> Inl e
      | Inr ar \<Rightarrow>
          let pr = procedure_risk (entities ctx);
              dr = policy_duration_risk (entities ctx);
              risk_factors = ar @ pr @ dr;
              highs = length (filter (\<lambda>f. level f = ''high'') risk_factors);
              mediums = length (filter (\<lambda>f. level f = ''medium'') risk_factors)
          in Inr \<lparr>overall_risk =
                    (if highs > 0 then ''high'' else if dr \<noteq> [] then ''medium'' else ''low''),
                  factors = risk_factors,
                  risk_score = Some (real highs * 0.3 + real mediums * 0.2)\<rparr>)"

text \<open>The procedure table of \<open>_calculate_coverage_amount\<close>, in the dictionary's order.\<close>
definition procedure_amounts :: "(string \<times> real) list" where
  "procedure_amounts =
     [(''knee'', 150000), (''hip'', 200000), (''cardiac'', 500000),
      (''surgery'', 100000), (''dental'', 25000), (''eye'', 50000)]"

definition base_amount :: "string \<Rightarrow> real" where
  "base_amount procedure =
     (case find (\<lambda>(proc_type, a). py_contains proc_type procedure) procedure_amounts of
        None \<Rightarrow> 75000
      | Some (proc_type, a) \<Rightarrow> a)"

text \<open>\<open>round(x, 2)\<close> on the exact value.\<close>
definition round2 :: "real \<Rightarrow> real" where
  "round2 x = real_of_int (round (x * 100)) / 100"

definition calculate_coverage_amount :: "DecisionContext \<Rightarrow> py_error + real option" where
  "calculate_coverage_amount ctx =
     (case map_of (entities ctx) ''procedure'' of
        None \<Rightarrow> Inr None
      | Some p \<Rightarrow>
          let base = base_amount (py_lower (py_str p))
          in (case map_of (entities ctx) ''age'' of
                None \<Rightarrow> Inr (Some (round2 base))
              | Some v \<Rightarrow>
                  (case age_of v 40 of
                     Inl e \<Rightarrow> Inl e
                   | Inr age \<Rightarrow>
                       if age > 60 then Inr (Some (round2 (base * 1.2)))
                       else if age < 30 then Inr (Some (round2 (base * 0.9)))
                       else Inr (Some (round2 base)))))"

definition decision_summary :: "string \<Rightarrow> string" where
  "decision_summary d =
     (if d = ''approved'' then ''The claim has been APPROVED based on policy analysis.''
      else if d = ''rejected'' then ''The claim has been REJECTED due to policy violations.''
      else if d = ''requires_review'' then ''The claim REQUIRES MANUAL REVIEW due to policy ambiguities.''
      else if d = ''pending'' then ''The claim is PENDING additional information or clarification.''
      else ''Decision status unclear.'')"

text \<open>The check mark, the cross and the bullet of the factor lines, as UTF-8 bytes.\<close>
definition factor_line :: "factor \<Rightarrow> string" where
  "factor_line f =
     (if status f = ''positive'' then [CHR 0xE2, CHR 0x9C, CHR 0x93]
      else if status f = ''negative'' then [CHR 0xE2, CHR 0x9C, CHR 0x97]
      else [CHR 0xE2, CHR 0x80, CHR 0xA2]) @ '' '' @ description f"

definition clause_line :: "float_format \<Rightarrow> nat \<Rightarrow> real SourceClause \<Rightarrow> string" where
  "clause_line F i c =
     str_of_nat i @ ''. '' @ document_name c @ '' (Relevance: '' @ fmt_fixed2 F (relevance_score c)
       @ ''): '' @ take 100 (clause_text c) @ ''...''"

definition generate_justification ::
  "float_format \<Rightarrow> string \<Rightarrow> factor list \<Rightarrow> ValidationResult \<Rightarrow> real SourceClause list \<Rightarrow> string" where
  "generate_justification F d fs validation clauses =
     (let relevant_clauses = take 2 (sort_key (\<lambda>c. - relevance_score c) clauses);
          justification_parts =
            [decision_summary d, CHR 0x0A # ''Key Decision Factors:'']
            @ map factor_line fs
            @ (if violated_rules validation \<noteq> []
               then [CHR 0x0A # ''Policy Violations: '' @ py_join '', '' (violated_rules validation)]
               else [])
            @ (if satisfied_rules validation \<noteq> []
               then [''Satisfied Requirements: '' @ py_join '', '' (take 3 (satisfied_rules validation))]
               else [])
            @ (if clauses \<noteq> []
               then (CHR 0x0A # ''Supporting Policy Clauses:'')
                    # map (\<lambda>(i, c). clause_line F (Suc i) c) (enumerate 0 relevant_clauses)
               else [])
            @ (if warnings validation \<noteq> []
               then [CHR 0x0A # ''Warnings: '' @ py_join '', '' (warnings validation)]
               else [])
      in py_join [CHR 0x0A] justification_parts)"

text \<open>The branch of the decision logic: the decision and its confidence modifier.\<close>
definition decide :: "ValidationResult \<Rightarrow> factor \<Rightarrow> string \<times> real" where
  "decide vr clause_factor =
     (if is_valid vr \<and> supports_coverage clause_factor = Some True then (''approved'', 0.1)
      else if \<not> is_valid vr \<and> length (violated_rules vr) > 2 then (''rejected'', 0.1)
      else if length (warnings vr) > 0 then (''requires_review'', - 0.2)
      else (''pending'', - 0.15))"

definition evaluate_coverage_decision :: "float_format \<Rightarrow> DecisionContext \<Rightarrow> py_error + DecisionResult" where
  "evaluate_coverage_decision F ctx =
     (let validation_factor = evaluate_validation_factor (validation_result ctx);
          clause_factor = evaluate_clause_support (source_clauses ctx) (entities ctx);
          entity_factor = evaluate_entity_completeness F (entities ctx);
          fs = [validation_factor, clause_factor, entity_factor]
      in case assess_risk ctx of
           Inl e \<Rightarrow> Inl e
         | Inr risk \<Rightarrow>
             let overall_confidence = sum_list (map confidence_impact fs) / real (length fs);
                 (d, confidence_modifier) = decide (validation_result ctx) clause_factor;
                 final_confidence = max 0.0 (min 1.0 (overall_confidence + confidence_modifier))
             in case (if d = ''approved'' then calculate_coverage_amount ctx else Inr None) of
                  Inl e \<Rightarrow> Inl e
                | Inr a \<Rightarrow>
                    Inr \<lparr>decision = d, confidence_score = final_confidence, amount = a,
                         justification =
                           generate_justification F d fs (validation_result ctx) (source_clauses ctx),
                         decision_factors = fs, risk_assessment = risk\<rparr>)"

text \<open>One entry of \<open>decision_history\<close> (the time stamp is left out).\<close>
record decision_record =
  rec_entities :: entities
  rec_decision :: string
  rec_confidence :: real
  rec_query_type :: string
  rec_amount :: "real option"

definition record_decision ::
  "decision_record list \<Rightarrow> entities \<Rightarrow> DecisionResult \<Rightarrow> string \<Rightarrow> decision_record list" where
  "record_decision history ents d qt =
     (let h = history @ [\<lparr>rec_entities = ents, rec_decision = decision d,
                           rec_confidence = confidence_score d, rec_query_type = qt,
                           rec_amount = amount d\<rparr>]
      in if length h > 1000 then drop (length h - 1000) h else h)"

text \<open>The result the \<open>except Exception\<close> branch of \<open>make_decision\<close> returns.\<close>
definition error_decision :: "py_error \<Rightarrow> DecisionResult" where
  "error_decision e =
     \<lparr>decision = ''rejected'', confidence_score = 0.0, amount = None,
      justification = ''Error in decision processing: '' @ error_text e,
      decision_factors = [],
      risk_assessment = \<lparr>overall_risk = ''unknown'', factors = [], risk_score = None\<rparr>\<rparr>"

text \<open>
  \<open>DecisionAgent.make_decision\<close>: the agent's history is passed in and returned. An exception
  of the rules engine leaves the history as it was.
\<close>
definition make_decision ::
  "float_format \<Rightarrow> decision_record list \<Rightarrow> entities \<Rightarrow> real SourceClause list \<Rightarrow> ValidationResult
     \<Rightarrow> string \<Rightarrow> DecisionResult \<times> decision_record list" where
  "make_decision F history ents clauses vr qt =
     (case evaluate_coverage_decision F
             \<lparr>entities = ents, source_clauses = clauses, validation_result = vr,
              query_type = qt, urgency_level = ''normal''\<rparr> of
        Inr decision_result \<Rightarrow> (decision_result, record_decision history ents decision_result qt)
      | Inl e \<Rightarrow> (error_decision e, history))"

text \<open>
  A stand-in for Python's float formatting where a concrete formatter is needed: it prints
  nothing. No property below depends on the digits a formatter prints.
\<close>
definition plain_format :: float_format where
  "plain_format = \<lparr>fmt_percent1 = (\<lambda>x. []), fmt_fixed2 = (\<lambda>x. [])\<rparr>"

section \<open>Validation agent (\<open>src/agents/validation_agent.py\<close>)\<close>

text \<open>
  The conditions of a rule, in the order of the rule's dictionary. The kinds are the ones
  \<open>_check_condition\<close> knows; any other key is \<open>UnknownCondition\<close>. A \<open>gender\<close> condition holds
  a list of strings or one string.
\<close>
datatype condition =
    MinAge real
  | MaxAge real
  | GenderIn "string list"
  | GenderIs string
  | WaitingPeriodDays real
  | CoveredProcedures "string list"
  | ExcludedProcedures "string list"
  | CoveredLocations "string list"
  | MaxClaimAmount real
  | RequiresPreAuthorization
  | UnknownCondition string

primrec condition_type :: "condition \<Rightarrow> string" where
  "condition_type (MinAge x) = ''min_age''"
| "condition_type (MaxAge x) = ''max_age''"
| "condition_type (GenderIn gs) = ''gender''"
| "condition_type (GenderIs g) = ''gender''"
| "condition_type (WaitingPeriodDays x) = ''waiting_period_days''"
| "condition_type (CoveredProcedures ps) = ''covered_procedures''"
| "condition_type (ExcludedProcedures ps) = ''excluded_procedures''"
| "condition_type (CoveredLocations ls) = ''covered_locations''"
| "condition_type (MaxClaimAmount x) = ''max_claim_amount''"
| "condition_type RequiresPreAuthorization = ''requires_pre_authorization''"
| "condition_type (UnknownCondition k) = k"

record PolicyRule =
  rule_id :: string
  name :: string
  conditions :: "condition list"
  action :: string
  priority :: int

text \<open>\<open>context.get(k, d)\<close>\<close>
definition get_or :: "entities \<Rightarrow> string \<Rightarrow> pyval \<Rightarrow> pyval" where
  "get_or ents k d = (case map_of ents k of None \<Rightarrow> d | Some v \<Rightarrow> v)"

text \<open>
  \<open>float(s)\<close> for a string of digits and dots, and 0.0 where the source catches \<open>ValueError\<close>
  or the string is empty: a float literal has at least one digit and at most one dot. The
  result is the double nearest to the decimal number, an infinity for a number too large.
\<close>
definition float_or_zero :: "string \<Rightarrow> pyfloat" where
  "float_or_zero s =
     (if length (filter (\<lambda>c. c = CHR ''.'') s) \<le> 1 \<and> list_ex isdigit s then
        (let whole = takeWhile isdigit s; frac = filter isdigit (dropWhile isdigit s)
         in float_of_real
              (real_of_int (digits_value whole) + real_of_int (digits_value frac) / 10 ^ length frac))
      else Fin 0)"

text \<open>\<open>_extract_numeric_value\<close>; \<open>float(i)\<close> raises for an integer beyond the doubles.\<close>
fun extract_numeric_value :: "pyval \<Rightarrow> py_error + pyfloat" where
  "extract_numeric_value (PInt i) = float_of_int i"
| "extract_numeric_value v =
     Inr (float_or_zero (filter (\<lambda>c. isdigit c \<or> c = CHR ''.'') (py_str v)))"

fun extract_policy_duration :: "pyval \<Rightarrow> int" where
  "extract_policy_duration (PInt i) = i"
| "extract_policy_duration v =
     (let duration_str = py_lower (py_str v);
          first_number = takeWhile isdigit (dropWhile (\<lambda>c. \<not> isdigit c) duration_str)
      in if first_number = [] then 0
         else if py_contains ''year'' duration_str \<or> py_contains ''yr'' duration_str
           then digits_value first_number * 365
         else if py_contains ''month'' duration_str then digits_value first_number * 30
         else if py_contains ''week'' duration_str then digits_value first_number * 7
         else digits_value first_number)"

text \<open>The text a procedure or location entity is searched in: a list is joined with blanks.\<close>
fun joined_lower :: "pyval \<Rightarrow> string" where
  "joined_lower (PList xs) = py_lower (py_join '' '' xs)"
| "joined_lower v = py_lower (py_str v)"

text \<open>
  \<open>_check_condition\<close>. The number of a condition is an integer or a finite float; a float is
  compared with it exactly. The exceptions are the one of \<open>.lower()\<close> on a gender that is no
  string and the one of \<open>float(i)\<close>.
\<close>
primrec check_condition :: "condition \<Rightarrow> entities \<Rightarrow> py_error + bool" where
  "check_condition (MinAge x) ents =
     (case extract_numeric_value (get_or ents ''age'' (PStr ''0'')) of
        Inl e \<Rightarrow> Inl e
      | Inr age \<Rightarrow> Inr (fge age (Fin x)))"
| "check_condition (MaxAge x) ents =
     (case extract_numeric_value (get_or ents ''age'' (PStr ''0'')) of
        Inl e \<Rightarrow> Inl e
      | Inr age \<Rightarrow> Inr (fle age (Fin x)))"
| "check_condition (GenderIn gs) ents =
     (case get_or ents ''gender'' (PStr []) of
        PStr g \<Rightarrow> Inr (py_lower g \<in> set (map py_lower gs))
      | PList xs \<Rightarrow> Inl (AttributeError (py_repr ''list'' @ '' object has no attribute '' @ py_repr ''lower''))
      | PInt i \<Rightarrow> Inl (AttributeError (py_repr ''int'' @ '' object has no attribute '' @ py_repr ''lower'')))"
| "check_condition (GenderIs g') ents =
     (case get_or ents ''gender'' (PStr []) of
        PStr g \<Rightarrow> Inr (py_lower g = py_lower g')
      | PList xs \<Rightarrow> Inl (AttributeError (py_repr ''list'' @ '' object has no attribute '' @ py_repr ''lower''))
      | PInt i \<Rightarrow> Inl (AttributeError (py_repr ''int'' @ '' object has no attribute '' @ py_repr ''lower'')))"
| "check_condition (WaitingPeriodDays x) ents =
     Inr (real_of_int (extract_policy_duration (get_or ents ''policy_duration'' (PStr ''0''))) \<ge> x)"
| "check_condition (CoveredProcedures ps) ents =
     Inr (list_ex (\<lambda>p. py_contains (py_lower p) (joined_lower (get_or ents ''procedure'' (PStr [])))) ps)"
| "check_condition (ExcludedProcedures ps) ents =
     Inr (\<not> list_ex (\<lambda>p. py_contains (py_lower p) (joined_lower (get_or ents ''procedure'' (PStr [])))) ps)"
| "check_condition (CoveredLocations ls) ents =
     Inr (list_ex (\<lambda>l. py_contains (py_lower l) (joined_lower (get_or ents ''location'' (PStr [])))) ls)"
| "check_condition (MaxClaimAmount x) ents =
     (case extract_numeric_value (get_or ents ''amount'' (PStr ''0'')) of
        Inl e \<Rightarrow> Inl e
      | Inr amt \<Rightarrow> Inr (fle amt (Fin x)))"
| "check_condition RequiresPreAuthorization ents =
     Inr (\<not> list_ex (\<lambda>p. py_contains p (joined_lower (get_or ents ''procedure'' (PStr []))))
                [''surgery'', ''operation'', ''transplant'', ''cardiac''])"
| "check_condition (UnknownCondition k) ents = Inr True"

text \<open>The loop of \<open>PolicyRule.evaluate\<close> over the conditions, with its \<open>except\<close> branch.\<close>
fun evaluate_conditions :: "string \<Rightarrow> condition list \<Rightarrow> entities \<Rightarrow> bool \<times> string" where
  "evaluate_conditions nm [] ents = (True, ''Rule '' @ nm @ '': all conditions satisfied'')"
| "evaluate_conditions nm (c # cs) ents =
     (case check_condition c ents of
        Inl e \<Rightarrow> (False, ''Rule evaluation error: '' @ error_text e)
      | Inr ok \<Rightarrow>
          if \<not> ok then (False, ''Rule '' @ nm @ '': '' @ condition_type c @ '' condition not met'')
          else evaluate_conditions nm cs ents)"

definition evaluate :: "PolicyRule \<Rightarrow> entities \<Rightarrow> bool \<times> string" where
  "evaluate rule ents = evaluate_conditions (name rule) (conditions rule) ents"

definition default_rules :: "PolicyRule list" where
  "default_rules =
     [\<lparr>rule_id = ''age_limit'', name = ''Age Eligibility'',
       conditions = [MinAge 18, MaxAge 80], action = ''check_age_eligibility'', priority = 1\<rparr>,
      \<lparr>rule_id = ''waiting_period'', name = ''Waiting Period Check'',
       conditions = [WaitingPeriodDays 90], action = ''check_waiting_period'', priority = 2\<rparr>,
      \<lparr>rule_id = ''covered_procedures'', name = ''Procedure Coverage'',
       conditions = [CoveredProcedures [''knee surgery'', ''hip surgery'', ''cardiac surgery'', ''dental'',
                       ''eye surgery'', ''general surgery'', ''orthopedic'', ''treatment'']],
       action = ''check_procedure_coverage'', priority = 3\<rparr>,
      \<lparr>rule_id = ''excluded_procedures'', name = ''Excluded Procedures'',
       conditions = [ExcludedProcedures [''cosmetic'', ''plastic surgery'', ''experimental'', ''elective'']],
       action = ''reject_excluded_procedure'', priority = 1\<rparr>,
      \<lparr>rule_id = ''geographic_coverage'', name = ''Geographic Coverage'',
       conditions = [CoveredLocations [''pune'', ''mumbai'', ''delhi'', ''bangalore'', ''chennai'',
                       ''hyderabad'', ''kolkata'', ''ahmedabad'', ''india'']],
       action = ''check_geographic_coverage'', priority = 2\<rparr>,
      \<lparr>rule_id = ''claim_amount_limit'', name = ''Maximum Claim Amount'',
       conditions = [MaxClaimAmount 500000], action = ''check_claim_limit'', priority = 2\<rparr>,
      \<lparr>rule_id = ''pre_authorization'', name = ''Pre-authorization Required'',
       conditions = [RequiresPreAuthorization], action = ''require_pre_auth'', priority = 3\<rparr>]"

text \<open>
  \<open>ValidationAgent.add_custom_rule\<close>, on the agent's rule list: the rule is appended, whatever
  its id and name. The conditions are the dictionary \<open>json.loads\<close> returns.
\<close>
definition add_custom_rule ::
  "PolicyRule list \<Rightarrow> string \<Rightarrow> string \<Rightarrow> condition list \<Rightarrow> string \<Rightarrow> int \<Rightarrow> PolicyRule list" where
  "add_custom_rule rules rid rule_name conds act prio =
     rules @ [\<lparr>rule_id = rid, name = rule_name, conditions = conds, action = act, priority = prio\<rparr>]"

text \<open>A dictionary of validation details: key, status, explanation.\<close>
type_synonym details = "(string \<times> string \<times> string) list"

definition contains_coverage_language :: "string \<Rightarrow> bool" where
  "contains_coverage_language txt =
     list_ex (\<lambda>t. py_contains t txt)
       [''covered'', ''eligible'', ''included'', ''benefits'', ''reimbursement'',
        ''payment'', ''approved'', ''qualified'']"

definition contains_exclusion_language :: "string \<Rightarrow> bool" where
  "contains_exclusion_language txt =
     list_ex (\<lambda>t. py_contains t txt)
       [''excluded'', ''not covered'', ''limitation'', ''restriction'',
        ''prohibited'', ''denied'', ''rejected'']"

definition check_entity_in_clause :: "entities \<Rightarrow> string \<Rightarrow> bool" where
  "check_entity_in_clause ents txt =
     list_ex (\<lambda>v. is_str v \<and> py_contains (py_lower (py_str v)) txt) (map snd ents)"

text \<open>The body of the loop of \<open>_validate_against_clauses\<close> for one clause.\<close>
definition clause_step :: "entities \<Rightarrow> details \<Rightarrow> real SourceClause \<Rightarrow> details" where
  "clause_step ents d c =
     (let txt = py_lower (clause_text c); k = ''clause_'' @ clause_id c
      in if contains_coverage_language txt then
           (if check_entity_in_clause ents txt
            then AList.update k (''supports_coverage'', ''Clause supports coverage for this case'') d
            else AList.update k (''neutral'', ''Clause is relevant but not specifically supportive'') d)
         else if contains_exclusion_language txt then
           (if check_entity_in_clause ents txt
            then AList.update k (''exclusion_risk'', ''Clause may exclude coverage for this case'') d
            else d)
         else if py_contains ''waiting'' txt \<or> py_contains ''period'' txt then
           AList.update k (''waiting_period_relevant'', ''Clause mentions waiting period requirements'') d
         else d)"

definition validate_against_clauses :: "entities \<Rightarrow> real SourceClause list \<Rightarrow> details" where
  "validate_against_clauses ents clauses = foldl (clause_step ents) [] clauses"

text \<open>
  The body of the loop of \<open>validate_claim\<close> for one rule: the violated names, the satisfied
  names, the warnings and the details, each in the order the loop appends.
\<close>
definition rule_step ::
  "entities \<Rightarrow> string list \<times> string list \<times> string list \<times> details \<Rightarrow> PolicyRule
     \<Rightarrow> string list \<times> string list \<times> string list \<times> details" where
  "rule_step ents acc rule =
     (case acc of (violated, satisfied, warns, d) \<Rightarrow>
        (case evaluate rule ents of
           (is_satisfied, explanation) \<Rightarrow>
             if is_satisfied then
               (violated, satisfied @ [name rule], warns,
                AList.update (rule_id rule) (''satisfied'', explanation) d)
             else
               (violated @ [name rule], satisfied,
                warns @ (if rule_id rule = ''waiting_period''
                           then [''Policy may not have met minimum waiting period'']
                         else if rule_id rule = ''excluded_procedures''
                           then [''Procedure may be excluded from coverage'']
                         else []),
                AList.update (rule_id rule) (''violated'', explanation) d)))"

definition validate_rules ::
  "PolicyRule list \<Rightarrow> entities \<Rightarrow> string list \<times> string list \<times> string list \<times> details" where
  "validate_rules rules ents = foldl (rule_step ents) ([], [], [], []) rules"

definition is_critical :: "PolicyRule list \<Rightarrow> string \<Rightarrow> bool" where
  "is_critical rules rule_name =
     (case find (\<lambda>r. name r = rule_name) rules of
        None \<Rightarrow> False
      | Some rule_obj \<Rightarrow> rule_id rule_obj \<in> set [''excluded_procedures'', ''age_limit''])"

text \<open>
  \<open>ValidationAgent.validate_claim\<close>, for the agent's rule list. Nothing in the body raises on
  the values modelled here, so the \<open>except\<close> branch of the source is not reached.
\<close>
definition validate_claim :: "PolicyRule list \<Rightarrow> entities \<Rightarrow> real SourceClause list \<Rightarrow> ValidationResult" where
  "validate_claim rules ents clauses =
     (case validate_rules (sort_key priority rules) ents of
        (violated, satisfied, warns, d) \<Rightarrow>
          let clause_validation = validate_against_clauses ents clauses;
              d' = foldl (\<lambda>acc (k, v). AList.update k v acc) d clause_validation;
              critical_violations = filter (is_critical rules) violated
          in \<lparr>is_valid = (length critical_violations = 0),
              violated_rules = violated,
              satisfied_rules = satisfied,
              warnings = warns,
              validation_details = d'\<rparr>)"

section \<open>Mapping agent (\<open>src/agents/mapping_agent.py\<close>)\<close>

text \<open>A \<open>TraceabilityLink\<close> (its time stamp is left out).\<close>
record TraceabilityLink =
  link_id :: string
  decision_id :: string
  source_clause_id :: string
  relationship_type :: string
  strength :: real
  explanation :: string

text \<open>
  A \<open>DecisionTrace\<close>. The \<open>metadata\<close> dictionary of the source is the three fields
  \<open>meta_decision_id\<close>, \<open>meta_amount\<close> and \<open>meta_risk_assessment\<close>; the time stamps are left
  out. A step of the decision path is a dictionary of texts.
\<close>
record DecisionTrace =
  trace_id :: string
  query :: string
  trace_decision :: string
  trace_entities :: entities
  trace_confidence_score :: real
  source_links :: "TraceabilityLink list"
  decision_path :: "(string \<times> string) list list"
  meta_decision_id :: string
  meta_amount :: "real option"
  meta_risk_assessment :: risk_assessment

text \<open>
  An entry of \<open>clause_index\<close>. The key \<open>traceability_links\<close> is absent until
  \<open>get_source_clauses_for_decision\<close> writes it into the stored dictionary: relationship type,
  strength and explanation of each link.
\<close>
record clause_entry =
  entry_document_name :: string
  entry_clause_text :: string
  entry_relevance_score :: real
  entry_page_number :: "int option"
  entry_word_count :: nat
  entry_char_count :: nat
  entry_traceability_links :: "(string \<times> real \<times> string) list option"

record DocumentIndex =
  clause_index :: "(string \<times> clause_entry) list"
  doc_index :: "(string \<times> string list) list"
  decision_index :: "(string \<times> string list) list"

record audit_entry =
  event_type :: string
  event_trace_id :: string
  event_decision_id :: string
  event_decision :: string
  event_source_clauses_count :: nat

record MappingAgent =
  document_index :: DocumentIndex
  decision_traces :: "(string \<times> DecisionTrace) list"
  traceability_links :: "(string \<times> TraceabilityLink) list"
  audit_log :: "audit_entry list"

text \<open>\<open>MappingAgent.__init__\<close>\<close>
definition new_mapping_agent :: MappingAgent where
  "new_mapping_agent =
     \<lparr>document_index = \<lparr>clause_index = [], doc_index = [], decision_index = []\<rparr>,
      decision_traces = [], traceability_links = [], audit_log = []\<rparr>"

text \<open>\<open>DocumentIndex.add_clause\<close>\<close>
definition add_clause :: "DocumentIndex \<Rightarrow> real SourceClause \<Rightarrow> DocumentIndex" where
  "add_clause ix clause =
     (let known = (case map_of (doc_index ix) (document_name clause) of None \<Rightarrow> [] | Some cs \<Rightarrow> cs)
      in ix\<lparr>clause_index :=
              AList.update (clause_id clause)
                \<lparr>entry_document_name = document_name clause,
                 entry_clause_text = clause_text clause,
                 entry_relevance_score = relevance_score clause,
                 entry_page_number = page_number clause,
                 entry_word_count = length (py_split (clause_text clause)),
                 entry_char_count = length (clause_text clause),
                 entry_traceability_links = None\<rparr>
                (clause_index ix),
            doc_index :=
              AList.update (document_name clause)
                (if clause_id clause \<in> set known then known else known @ [clause_id clause])
                (doc_index ix)\<rparr>)"

text \<open>\<open>DocumentIndex.link_decision_to_clauses\<close>\<close>
definition link_decision_to_clauses :: "DocumentIndex \<Rightarrow> string \<Rightarrow> string list \<Rightarrow> DocumentIndex" where
  "link_decision_to_clauses ix did clause_ids =
     ix\<lparr>decision_index := AList.update did clause_ids (decision_index ix)\<rparr>"

text \<open>\<open>DocumentIndex.get_clauses_by_decision\<close>\<close>
definition get_clauses_by_decision :: "DocumentIndex \<Rightarrow> string \<Rightarrow> string list" where
  "get_clauses_by_decision ix did =
     (case map_of (decision_index ix) did of None \<Rightarrow> [] | Some cs \<Rightarrow> cs)"

text \<open>\<open>_analyze_clause_relationship\<close>: relationship type, strength and explanation.\<close>
definition analyze_clause_relationship ::
  "real SourceClause \<Rightarrow> DecisionResult \<Rightarrow> string \<times> real \<times> string" where
  "analyze_clause_relationship clause d =
     (let txt = py_lower (clause_text clause);
          decision_outcome = py_lower (decision d);
          supports_count = count_terms [''covered'', ''eligible'', ''benefits'', ''approved'', ''included''] txt;
          contradicts_count =
            count_terms [''excluded'', ''not covered'', ''denied'', ''prohibited'', ''limitation''] txt;
          validates_count = count_terms [''must'', ''required'', ''shall'', ''conditions'', ''criteria''] txt
      in if decision_outcome = ''approved'' then
           (if supports_count > contradicts_count then
              (''supports'', min 1.0 (relevance_score clause + 0.2),
               ''Clause contains '' @ str_of_nat supports_count @ '' supportive terms for approved decision'')
            else if contradicts_count > supports_count then
              (''contradicts'', relevance_score clause,
               ''Clause contains '' @ str_of_nat contradicts_count @ '' contradictory terms despite approval'')
            else (''validates'', relevance_score clause,
                  ''Clause provides validation criteria for decision''))
         else if decision_outcome = ''rejected'' then
           (if contradicts_count > supports_count then
              (''supports'', min 1.0 (relevance_score clause + 0.2),
               ''Clause contains '' @ str_of_nat contradicts_count @ '' exclusionary terms supporting rejection'')
            else if supports_count > contradicts_count then
              (''contradicts'', relevance_score clause,
               ''Clause contains '' @ str_of_nat supports_count @ '' supportive terms despite rejection'')
            else (''validates'', relevance_score clause,
                  ''Clause provides validation criteria for decision''))
         else
           (if validates_count > 0 then
              (''validates'', relevance_score clause,
               ''Clause contains '' @ str_of_nat validates_count @ '' validation requirements'')
            else (''references'', relevance_score clause * 0.8,
                  ''Clause provides reference information for decision'')))"

text \<open>\<open>_create_traceability_link\<close>, with the identifier \<open>uuid4\<close> returns as a parameter.\<close>
definition create_traceability_link ::
  "string \<Rightarrow> string \<Rightarrow> real SourceClause \<Rightarrow> DecisionResult \<Rightarrow> TraceabilityLink" where
  "create_traceability_link lid did clause d =
     (case analyze_clause_relationship clause d of
        (rt, st, ex) \<Rightarrow>
          \<lparr>link_id = lid, decision_id = did, source_clause_id = clause_id clause,
           relationship_type = rt, strength = st, explanation = ex\<rparr>)"

text \<open>\<open>_log_audit_event\<close>\<close>
definition log_audit_event :: "audit_entry list \<Rightarrow> audit_entry \<Rightarrow> audit_entry list" where
  "log_audit_event lg e =
     (let lg' = lg @ [e] in if length lg' > 10000 then drop (length lg' - 10000) lg' else lg')"

text \<open>
  \<open>MappingAgent.create_decision_trace\<close>. The identifiers are the values \<open>uuid4\<close> returns during
  the call, in the order the call draws them: \<open>uuid 0\<close> is the trace id, \<open>uuid 1\<close> the decision
  id, \<open>uuid (2 + i)\<close> the id of the link of the i-th clause. The call returns the trace id and
  the agent's new state.
\<close>
definition create_decision_trace ::
  "MappingAgent \<Rightarrow> (nat \<Rightarrow> string) \<Rightarrow> string \<Rightarrow> entities \<Rightarrow> DecisionResult \<Rightarrow> real SourceClause list
     \<Rightarrow> (string \<times> string) list list \<Rightarrow> string \<times> MappingAgent" where
  "create_decision_trace agent uuid q ents d clauses path =
     (let tid = uuid 0;
          did = uuid 1;
          ix = foldl add_clause (document_index agent) clauses;
          links = map (\<lambda>(i, clause). create_traceability_link (uuid (2 + i)) did clause d)
                    (enumerate 0 clauses);
          stored = foldl (\<lambda>m l. AList.update (link_id l) l m) (traceability_links agent) links;
          clause_ids = map clause_id clauses;
          ix' = link_decision_to_clauses ix did clause_ids;
          decision_trace =
            \<lparr>trace_id = tid, query = q, trace_decision = decision d, trace_entities = ents,
             trace_confidence_score = confidence_score d, source_links = links,
             decision_path = path, meta_decision_id = did, meta_amount = amount d,
             meta_risk_assessment = risk_assessment d\<rparr>
      in (tid,
          \<lparr>document_index = ix',
           decision_traces = AList.update tid decision_trace (decision_traces agent),
           traceability_links = stored,
           audit_log = log_audit_event (audit_log agent)
             \<lparr>event_type = ''decision_trace_created'', event_trace_id = tid,
              event_decision_id = did, event_decision = decision d,
              event_source_clauses_count = length clauses\<rparr>\<rparr>))"

text \<open>The links of a clause and a decision, as \<open>get_source_clauses_for_decision\<close> attaches them.\<close>
definition links_of :: "MappingAgent \<Rightarrow> string \<Rightarrow> string \<Rightarrow> (string \<times> real \<times> string) list" where
  "links_of agent cid did =
     map (\<lambda>l. (relationship_type l, strength l, explanation l))
       (filter (\<lambda>l. source_clause_id l = cid \<and> decision_id l = did)
          (map snd (traceability_links agent)))"

text \<open>
  \<open>get_source_clauses_for_decision\<close>: the clause dictionaries of a decision. The source writes
  the links into the dictionary stored in \<open>clause_index\<close> and returns that dictionary, so the
  call also changes the agent's state.
\<close>
definition source_clause_step ::
  "string \<Rightarrow> clause_entry list \<times> MappingAgent \<Rightarrow> string \<Rightarrow> clause_entry list \<times> MappingAgent" where
  "source_clause_step did acc cid =
     (case acc of (clauses, agent) \<Rightarrow>
        (case map_of (clause_index (document_index agent)) cid of
           None \<Rightarrow> (clauses, agent)
         | Some clause_data \<Rightarrow>
             let clause_data' = clause_data\<lparr>entry_traceability_links := Some (links_of agent cid did)\<rparr>
             in (clauses @ [clause_data'],
                 agent\<lparr>document_index :=
                   (document_index agent)\<lparr>clause_index :=
                      AList.update cid clause_data' (clause_index (document_index agent))\<rparr>\<rparr>)))"

definition get_source_clauses_for_decision ::
  "MappingAgent \<Rightarrow> string \<Rightarrow> clause_entry list \<times> MappingAgent" where
  "get_source_clauses_for_decision agent did =
     foldl (source_clause_step did) ([], agent) (get_clauses_by_decision (document_index agent) did)"

text \<open>An entry of the list \<open>get_decisions_using_clause\<close> returns (without its time stamp).\<close>
record decision_entry =
  dec_trace_id :: string
  dec_decision :: string
  dec_query :: string
  dec_confidence_score :: real
  dec_relationship_type :: string
  dec_relationship_strength :: real

definition get_decisions_using_clause :: "MappingAgent \<Rightarrow> string \<Rightarrow> decision_entry list" where
  "get_decisions_using_clause agent cid =
     concat (map (\<lambda>l.
         (case find (\<lambda>t. meta_decision_id t = decision_id l) (map snd (decision_traces agent)) of
            None \<Rightarrow> []
          | Some t \<Rightarrow>
              [\<lparr>dec_trace_id = trace_id t, dec_decision = trace_decision t, dec_query = query t,
                dec_confidence_score = trace_confidence_score t,
                dec_relationship_type = relationship_type l,
                dec_relationship_strength = strength l\<rparr>]))
       (filter (\<lambda>l. source_clause_id l = cid) (map snd (traceability_links agent))))"

text \<open>
  The states of the agent. \<open>uuid4\<close> never repeats a value: a call of \<open>create_decision_trace\<close>
  for \<open>n\<close> clauses draws \<open>2 + n\<close> identifiers that differ from each other and from the
  identifiers the agent already holds.
\<close>
definition used_ids :: "MappingAgent \<Rightarrow> string list" where
  "used_ids agent =
     map fst (decision_traces agent)
     @ map (\<lambda>kt. meta_decision_id (snd kt)) (decision_traces agent)
     @ map fst (traceability_links agent)"

definition fresh_ids :: "MappingAgent \<Rightarrow> (nat \<Rightarrow> string) \<Rightarrow> nat \<Rightarrow> bool" where
  "fresh_ids agent uuid n =
     (distinct (map uuid [0..<2 + n])
      \<and> list_all (\<lambda>i. uuid i \<notin> set (used_ids agent)) [0..<2 + n])"

inductive reachable :: "MappingAgent \<Rightarrow> bool" where
  init: "reachable new_mapping_agent"
| trace: "reachable agent \<Longrightarrow> fresh_ids agent uuid (length clauses) \<Longrightarrow>
          reachable (snd (create_decision_trace agent uuid q ents d clauses path))"
| lookup: "reachable agent \<Longrightarrow> reachable (snd (get_source_clauses_for_decision agent did))"

text \<open>What every reachable state keeps of its recorded traces.\<close>
definition trace_inv :: "MappingAgent \<Rightarrow> bool" where
  "trace_inv agent =
     (distinct (map (\<lambda>kt. meta_decision_id (snd kt)) (decision_traces agent))
      \<and> list_all (\<lambda>kt. list_all (\<lambda>l.
             map_of (traceability_links agent) (link_id l) = Some l
             \<and> decision_id l = meta_decision_id (snd kt)
             \<and> source_clause_id l \<in> fst ` set (clause_index (document_index agent))
             \<and> source_clause_id l
                  \<in> set (get_clauses_by_decision (document_index agent) (meta_decision_id (snd kt))))
           (source_links (snd kt)))
         (decision_traces agent))"

text \<open>The links \<open>create_decision_trace\<close> builds, one for each clause.\<close>
definition new_links :: "(nat \<Rightarrow> string) \<Rightarrow> DecisionResult \<Rightarrow> real SourceClause list \<Rightarrow> TraceabilityLink list" where
  "new_links uuid d clauses =
     map (\<lambda>(i, clause). create_traceability_link (uuid (2 + i)) (uuid 1) clause d) (enumerate 0 clauses)"

text \<open>
  Two states that differ at most in the \<open>traceability_links\<close> key that
  \<open>get_source_clauses_for_decision\<close> writes into the stored clause dictionaries.
\<close>
definition same_upto_links :: "MappingAgent \<Rightarrow> MappingAgent \<Rightarrow> bool" where
  "same_upto_links a s =
     (decision_traces a = decision_traces s
      \<and> traceability_links a = traceability_links s
      \<and> decision_index (document_index a) = decision_index (document_index s)
      \<and> fst ` set (clause_index (document_index a)) = fst ` set (clause_index (document_index s))
      \<and> (\<forall>cid e. map_of (clause_index (document_index s)) cid = Some e \<longrightarrow>
            (\<exists>e'. map_of (clause_index (document_index a)) cid = Some e'
                 \<and> e'\<lparr>entry_traceability_links := None\<rparr> = e\<lparr>entry_traceability_links := None\<rparr>)))"

text \<open>A worked example: one trace over one clause, recorded by a new agent.\<close>
definition example_uuid :: "nat \<Rightarrow> string" where
  "example_uuid n = ''id-'' @ str_of_nat n"

definition example_clause :: "real SourceClause" where
  "example_clause =
     \<lparr>document_name = ''policy.txt'', clause_id = ''policy.txt_p0_c0'',
      clause_text = ''Knee surgery is covered after the waiting period'',
      relevance_score = 0.9, page_number = Some 0\<rparr>"

definition example_decision :: DecisionResult where
  "example_decision =
     \<lparr>decision = ''approved'', confidence_score = 0.9, amount = Some 150000,
      justification = ''The claim has been APPROVED based on policy analysis.'',
      decision_factors = [],
      risk_assessment = \<lparr>overall_risk = ''low'', factors = [], risk_score = Some 0\<rparr>\<rparr>"

definition example_agent :: MappingAgent where
  "example_agent =
     snd (create_decision_trace new_mapping_agent example_uuid ''is knee surgery covered''
            [(''procedure'', PStr ''knee'')] example_decision [example_clause] [])"

definition example_link :: TraceabilityLink where
  "example_link =
     \<lparr>link_id = ''id-2'', decision_id = ''id-1'', source_clause_id = ''policy.txt_p0_c0'',
      relationship_type = ''supports'', strength = 1,
      explanation = ''Clause contains 1 supportive terms for approved decision''\<rparr>"

definition example_trace :: DecisionTrace where
  "example_trace =
     \<lparr>trace_id = ''id-0'', query = ''is knee surgery covered'', trace_decision = ''approved'',
      trace_entities = [(''procedure'', PStr ''knee'')], trace_confidence_score = 0.9,
      source_links = [example_link], decision_path = [], meta_decision_id = ''id-1'',
      meta_amount = Some 150000,
      meta_risk_assessment = \<lparr>overall_risk = ''low'', factors = [], risk_score = Some 0\<rparr>\<rparr>"

section \<open>Regular expressions, as Python's \<open>re\<close> matches them\<close>

text \<open>
  The patterns of the query parser as a datatype, and a backtracking matcher with the
  priorities of \<open>re\<close>: the alternatives of \<open>|\<close> from left to right, \<open>*\<close> and \<open>?\<close> greedy. A
  character is matched by a predicate, so that a literal under \<open>IGNORECASE\<close> and the classes
  \<open>\d\<close>, \<open>\s\<close>, \<open>[A-Z]\<close> are all \<open>Chr\<close>.
\<close>
datatype regex =
    Chr "char \<Rightarrow> bool"
  | Eps
  | Seq regex regex
  | Alt regex regex
  | Star regex
  | Group nat regex
  | WordBoundary
  | Lookahead regex

text \<open>
  A state of the matcher: the character before the position (if any), the text from the
  position on, and the groups captured so far.
\<close>
type_synonym mstate = "char option \<times> string \<times> (nat \<times> string) list"

definition is_word_char :: "char \<Rightarrow> bool" where
  "is_word_char c =
     (c \<in> set ''abcdefghijklmnopqrstuvwxyzABCDEFGHIJKLMNOPQRSTUVWXYZ0123456789_'')"

text \<open>\<open>\b\<close>: exactly one of the two characters around the position is a word character.\<close>
definition at_word_boundary :: "char option \<Rightarrow> string \<Rightarrow> bool" where
  "at_word_boundary prev rest =
     ((case prev of None \<Rightarrow> False | Some c \<Rightarrow> is_word_char c)
      \<noteq> (case rest of [] \<Rightarrow> False | c # cs \<Rightarrow> is_word_char c))"

text \<open>
  All ways to match a pattern at a state, best first. An iteration of \<open>*\<close> that consumes
  nothing ends the repetition.
\<close>
function rmatch :: "regex \<Rightarrow> mstate \<Rightarrow> mstate list" where
  "rmatch (Chr p) (prev, rest, caps) =
     (case rest of [] \<Rightarrow> [] | c # cs \<Rightarrow> if p c then [(Some c, cs, caps)] else [])"
| "rmatch Eps st = [st]"
| "rmatch (Seq r1 r2) st = concat (map (rmatch r2) (rmatch r1 st))"
| "rmatch (Alt r1 r2) st = rmatch r1 st @ rmatch r2 st"
| "rmatch (Star r) (prev, rest, caps) =
     concat (map (\<lambda>st'. if length (fst (snd st')) < length rest then rmatch (Star r) st' else [])
               (rmatch r (prev, rest, caps)))
     @ [(prev, rest, caps)]"
| "rmatch (Group n r) (prev, rest, caps) =
     map (\<lambda>st'. (fst st', fst (snd st'),
                  AList.update n (take (length rest - length (fst (snd st'))) rest) (snd (snd st'))))
       (rmatch r (prev, rest, caps))"
| "rmatch WordBoundary (prev, rest, caps) =
     (if at_word_boundary prev rest then [(prev, rest, caps)] else [])"
| "rmatch (Lookahead r) st = (if rmatch r st \<noteq> [] then [st] else [])"
  by pat_completeness auto
termination
  by (relation "inv_image (less_than <*lex*> less_than) (\<lambda>(r, st). (size r, length (fst (snd st))))")
     auto

text \<open>\<open>r?\<close> and \<open>r+\<close>, a sequence, and a choice among alternatives.\<close>
definition Opt :: "regex \<Rightarrow> regex" where
  "Opt r = Alt r Eps"

definition Plus :: "regex \<Rightarrow> regex" where
  "Plus r = Seq r (Star r)"

fun seq :: "regex list \<Rightarrow> regex" where
  "seq [] = Eps"
| "seq [r] = r"
| "seq (r # rs) = Seq r (seq rs)"

fun alts :: "regex list \<Rightarrow> regex" where
  "alts [] = Eps"
| "alts [r] = r"
| "alts (r # rs) = Alt r (alts rs)"

text \<open>A literal text under \<open>re.IGNORECASE\<close>.\<close>
definition lit :: "string \<Rightarrow> regex" where
  "lit s = seq (map (\<lambda>c. Chr (\<lambda>x. lower_char x = lower_char c)) s)"

text \<open>
  \<open>re.finditer\<close>: the matches from left to right, the next search starting where a match
  ended; each match is given by its captured groups. (After a match of the empty string the
  search moves on by one character; no pattern of the parser matches the empty string.)
\<close>
function finditer :: "regex \<Rightarrow> char option \<Rightarrow> string \<Rightarrow> (nat \<times> string) list list" where
  "finditer r prev s =
     (case rmatch r (prev, s, []) of
        [] \<Rightarrow> (case s of [] \<Rightarrow> [] | c # cs \<Rightarrow> finditer r (Some c) cs)
      | st # sts \<Rightarrow>
          if length (fst (snd st)) < length s
          then snd (snd st) # finditer r (fst st) (fst (snd st))
          else snd (snd st) # (case s of [] \<Rightarrow> [] | c # cs \<Rightarrow> finditer r (Some c) cs))"
  by pat_completeness auto
termination
  by (relation "measure (\<lambda>(r, prev, s). length s)") auto

declare finditer.simps [simp del]

section \<open>Retrieval agent (\<open>src/agents/retrieval_agent.py\<close>)\<close>

subsection \<open>Query parser\<close>

definition digit :: regex where
  "digit = Chr isdigit"

definition space :: regex where
  "space = Chr isspace"

text \<open>\<open>[A-Z]\<close> and \<open>[a-z]\<close> match the same characters under \<open>IGNORECASE\<close>.\<close>
definition letter :: regex where
  "letter = Chr (\<lambda>c. lower_char c \<in> set ''abcdefghijklmnopqrstuvwxyz'')"

text \<open>\<open>[-\s]\<close>\<close>
definition dash_or_space :: regex where
  "dash_or_space = Chr (\<lambda>c. c = CHR ''-'' \<or> isspace c)"

text \<open>The patterns of \<open>QueryParser.entity_patterns\<close>, in the dictionary's order.\<close>
definition age_pattern :: regex where
  "age_pattern =
     alts [seq [WordBoundary, Group 1 (Plus digit), Opt dash_or_space,
                alts [lit ''year'', lit ''yr'', lit ''y''], Opt dash_or_space, lit ''old''],
           seq [WordBoundary, Group 2 (Plus digit), lit ''y'', WordBoundary],
           seq [WordBoundary, Group 3 (Plus digit), Star space, lit ''male''],
           seq [WordBoundary, Group 4 (Plus digit), Star space, lit ''female'']]"

definition gender_pattern :: regex where
  "gender_pattern =
     seq [WordBoundary,
          Group 1 (alts [lit ''male'', lit ''female'', lit ''man'', lit ''woman'', lit ''M'', lit ''F'']),
          WordBoundary]"

definition procedure_pattern :: regex where
  "procedure_pattern =
     seq [WordBoundary,
          Group 1 (alts [lit ''surgery'', lit ''operation'', lit ''treatment'', lit ''procedure'',
                         lit ''knee'', lit ''hip'', lit ''heart'', lit ''brain'', lit ''cancer'',
                         lit ''diabetes'']),
          WordBoundary]"

definition location_pattern :: regex where
  "location_pattern =
     seq [WordBoundary,
          Group 1 (seq [letter, Plus letter, Star (seq [Plus space, letter, Plus letter])]),
          WordBoundary,
          Lookahead (alts [seq [Star space,
                                alts [lit ''city'', lit ''state'', lit ''hospital'', lit ''clinic'']],
                           seq [Star space, lit '','']])]"

definition policy_duration_pattern :: regex where
  "policy_duration_pattern =
     seq [WordBoundary, Group 1 (Plus digit), Opt dash_or_space,
          alts [lit ''month'', lit ''yr'', lit ''year''], Opt dash_or_space, lit ''old'',
          Plus space, alts [lit ''policy'', lit ''insurance'']]"

definition amount_pattern :: regex where
  "amount_pattern =
     seq [Opt (lit ''$''), Star space,
          Group 1 (seq [Plus digit,
                        Star (seq [lit '','', digit, digit, digit]),
                        Opt (seq [lit ''.'', digit, digit])]),
          Star space,
          Opt (alts [seq [lit ''dollar'', Opt (lit ''s'')], lit ''USD'', lit ''$''])]"

text \<open>Each pattern with the number of its groups.\<close>
definition entity_patterns :: "(string \<times> regex \<times> nat) list" where
  "entity_patterns =
     [(''age'', age_pattern, 4),
      (''gender'', gender_pattern, 1),
      (''procedure'', procedure_pattern, 1),
      (''location'', location_pattern, 1),
      (''policy_duration'', policy_duration_pattern, 1),
      (''amount'', amount_pattern, 1)]"

text \<open>
  \<open>next((group for group in match.groups() if group), None)\<close>: the first group that took
  part in the match and is not empty.
\<close>
definition first_group :: "nat \<Rightarrow> (nat \<times> string) list \<Rightarrow> string option" where
  "first_group n caps =
     (case filter (\<lambda>g. g \<noteq> []) (List.map_filter (map_of caps) [1..<Suc n]) of
        [] \<Rightarrow> None
      | g # gs \<Rightarrow> Some g)"

text \<open>The list \<open>values\<close> that the loop over the matches of one pattern builds.\<close>
definition matched_values :: "regex \<Rightarrow> nat \<Rightarrow> string \<Rightarrow> string list" where
  "matched_values r n q =
     map py_strip (List.map_filter (first_group n) (finditer r None q))"

text \<open>\<open>entities[entity_type] = values[0] if len(values) == 1 else values\<close>, when \<open>values\<close> is not empty.\<close>
fun entity_of_values :: "string list \<Rightarrow> pyval option" where
  "entity_of_values [] = None"
| "entity_of_values [v] = Some (PStr v)"
| "entity_of_values vs = Some (PList vs)"

definition extract_entities :: "string \<Rightarrow> entities" where
  "extract_entities q =
     List.map_filter
       (\<lambda>(entity_type, r, n).
          map_option (\<lambda>v. (entity_type, v)) (entity_of_values (matched_values r n q)))
       entity_patterns"

definition determine_question_type :: "string \<Rightarrow> string" where
  "determine_question_type q =
     (if list_ex (\<lambda>w. py_contains w q) [''eligible'', ''qualify'', ''covered'', ''allowed'']
        then ''eligibility''
      else if list_ex (\<lambda>w. py_contains w q) [''amount'', ''cost'', ''price'', ''pay'', ''$'']
        then ''financial''
      else if list_ex (\<lambda>w. py_contains w q) [''when'', ''how long'', ''waiting'', ''period'']
        then ''timing''
      else if list_ex (\<lambda>w. py_contains w q) [''where'', ''location'', ''hospital'', ''clinic'']
        then ''location''
      else ''general'')"

definition build_structured_query :: "entities \<Rightarrow> string" where
  "build_structured_query ents =
     (let parts =
            List.map_filter
              (\<lambda>(k, label). map_option (\<lambda>v. label @ py_str v) (map_of ents k))
              [(''age'', ''Age: ''), (''gender'', ''Gender: ''), (''procedure'', ''Procedure: ''),
               (''location'', ''Location: ''), (''policy_duration'', ''Policy Duration: '')]
      in if parts \<noteq> [] then py_join '' | '' parts else ''General inquiry'')"

record query_context =
  query_length :: nat
  contains_urgency :: bool
  contains_negation :: bool
  question_type :: string

record parsed_query =
  original_query :: string
  parsed_entities :: entities
  parsed_context :: query_context
  structured_query :: string

text \<open>\<open>QueryParser.parse_query\<close>\<close>
definition parse_query :: "string \<Rightarrow> parsed_query" where
  "parse_query q =
     (let ents = extract_entities q; query_lower = py_lower q
      in \<lparr>original_query = q,
          parsed_entities = ents,
          parsed_context =
            \<lparr>query_length = length (py_split q),
             contains_urgency =
               list_ex (\<lambda>w. py_contains w query_lower) [''urgent'', ''emergency'', ''asap'', ''immediate''],
             contains_negation =
               list_ex (\<lambda>w. py_contains w query_lower) [''not'', ''no'', ''never'', ''without''],
             question_type = determine_question_type query_lower\<rparr>,
          structured_query = build_structured_query ents\<rparr>)"

subsection \<open>Vector store\<close>

record RetrievalConfig =
  dense_weight :: pyfloat
  sparse_weight :: pyfloat
  max_results :: int
  similarity_threshold :: pyfloat
  rerank_results :: bool

text \<open>
  The constructor the \<open>dataclass\<close> decorator generates for \<open>RetrievalConfig\<close>: it stores its
  arguments and checks nothing; the class has no \<open>__post_init__\<close>.
\<close>
definition RetrievalConfig_init ::
  "pyfloat \<Rightarrow> pyfloat \<Rightarrow> int \<Rightarrow> pyfloat \<Rightarrow> bool \<Rightarrow> py_error + RetrievalConfig" where
  "RetrievalConfig_init dw sw mr st rr =
     Inr \<lparr>dense_weight = dw, sparse_weight = sw, max_results = mr,
          similarity_threshold = st, rerank_results = rr\<rparr>"

text \<open>The defaults of the fields.\<close>
definition default_config :: RetrievalConfig where
  "default_config =
     \<lparr>dense_weight = float_of_real 0.7, sparse_weight = float_of_real 0.3, max_results = 10,
      similarity_threshold = float_of_real 0.6, rerank_results = True\<rparr>"

text \<open>The metadata dictionary the chunker gives a chunk.\<close>
record chunk_metadata =
  paragraph_index :: nat
  chunk_index :: nat
  word_count :: nat
  character_count :: nat
  key_phrases :: "string list"
  chunk_type :: string

text \<open>A \<open>DocumentChunk\<close>; \<open>metadata = None\<close> is the empty dictionary.\<close>
record DocumentChunk =
  chunk_id :: string
  content :: string
  document_source :: string
  metadata :: "chunk_metadata option"
  dense_embedding :: "pyfloat list option"
  sparse_embedding :: "(string \<times> pyfloat) list option"

record VectorStore =
  dense_vectors :: "(string \<times> pyfloat list) list"
  sparse_vectors :: "(string \<times> (string \<times> pyfloat) list) list"
  documents :: "(string \<times> DocumentChunk) list"

definition new_vector_store :: VectorStore where
  "new_vector_store = \<lparr>dense_vectors = [], sparse_vectors = [], documents = []\<rparr>"

text \<open>
  What the agent computes with and the repository does not hold: \<open>encode\<close> is
  \<open>_generate_dense_embedding\<close> (the sentence transformer, or the bag of words under Python's
  randomised \<open>hash\<close>), an array of doubles; \<open>np_dot\<close> and \<open>np_norm\<close> are numpy's \<open>dot\<close> and
  \<open>linalg.norm\<close>, whose order of summation is numpy's own; \<open>float_pow\<close> is the \<open>**\<close> of two
  floats, the \<open>pow\<close> of the C library, with the exceptions Python raises from it; \<open>float_sum\<close>
  is the built-in \<open>sum\<close> of floats, a plain sum from left to right or, from Python 3.12 on, a
  compensated one.
\<close>
record platform =
  encode :: "string \<Rightarrow> pyfloat list"
  np_dot :: "pyfloat list \<Rightarrow> pyfloat list \<Rightarrow> pyfloat"
  np_norm :: "pyfloat list \<Rightarrow> pyfloat"
  float_pow :: "pyfloat \<Rightarrow> pyfloat \<Rightarrow> py_error + pyfloat"
  float_sum :: "pyfloat list \<Rightarrow> pyfloat"

text \<open>\<open>word_freq[word] = word_freq.get(word, 0) + 1\<close>\<close>
definition count_word :: "(string \<times> nat) list \<Rightarrow> string \<Rightarrow> (string \<times> nat) list" where
  "count_word word_freq w =
     (if length w > 2
      then AList.update w (case map_of word_freq w of None \<Rightarrow> 1 | Some n \<Rightarrow> n + 1) word_freq
      else word_freq)"

text \<open>
  \<open>_generate_sparse_embedding\<close>; \<open>freq / total_words\<close> is the double nearest to the quotient
  of the two integers.
\<close>
definition generate_sparse_embedding :: "string \<Rightarrow> (string \<times> pyfloat) list" where
  "generate_sparse_embedding txt =
     (let words = py_split (py_lower txt);
          word_freq = foldl count_word [] words;
          total_words = length words
      in map (\<lambda>(w, freq). (w, float_of_real (real freq / real total_words))) word_freq)"

text \<open>
  \<open>_cosine_similarity\<close>: \<open>np.dot\<close> raises for vectors of different lengths, and the bare
  \<open>except\<close> returns 0.0. The product and the quotient are those of numpy's scalars.
\<close>
definition cosine_similarity :: "platform \<Rightarrow> pyfloat list \<Rightarrow> pyfloat list \<Rightarrow> pyfloat" where
  "cosine_similarity P vec1 vec2 =
     (if length vec1 \<noteq> length vec2 then Fin 0
      else
        let dot_product = np_dot P vec1 vec2;
            norm1 = np_norm P vec1;
            norm2 = np_norm P vec2
        in if feq norm1 (Fin 0) \<or> feq norm2 (Fin 0) then Fin 0
           else np_divide dot_product (fmul norm1 norm2))"

text \<open>The values of \<open>val ** 2 for val in vec.values()\<close>, up to the first exception.\<close>
fun squares :: "platform \<Rightarrow> pyfloat list \<Rightarrow> py_error + pyfloat list" where
  "squares P [] = Inr []"
| "squares P (v # vs) =
     (case float_pow P v (Fin 2) of
        Inl e \<Rightarrow> Inl e
      | Inr sq \<Rightarrow> (case squares P vs of Inl e \<Rightarrow> Inl e | Inr sqs \<Rightarrow> Inr (sq # sqs)))"

text \<open>\<open>sum(val ** 2 for val in vec.values()) ** 0.5\<close>\<close>
definition sparse_norm :: "platform \<Rightarrow> (string \<times> pyfloat) list \<Rightarrow> py_error + pyfloat" where
  "sparse_norm P vec =
     (case squares P (map snd vec) of
        Inl e \<Rightarrow> Inl e
      | Inr sqs \<Rightarrow> float_pow P (float_sum P sqs) (Fin (1 / 2)))"

text \<open>\<open>_sparse_similarity\<close>\<close>
definition sparse_similarity ::
  "platform \<Rightarrow> (string \<times> pyfloat) list \<Rightarrow> (string \<times> pyfloat) list \<Rightarrow> py_error + pyfloat" where
  "sparse_similarity P vec1 vec2 =
     (if vec1 = [] \<or> vec2 = [] then Inr (Fin 0)
      else
        let dot_product =
              foldl (\<lambda>acc (w, x). case map_of vec2 w of None \<Rightarrow> acc | Some y \<Rightarrow> fadd acc (fmul x y))
                (Fin 0) vec1
        in case sparse_norm P vec1 of
             Inl e \<Rightarrow> Inl e
           | Inr norm1 \<Rightarrow>
               (case sparse_norm P vec2 of
                  Inl e \<Rightarrow> Inl e
                | Inr norm2 \<Rightarrow>
                    if feq norm1 (Fin 0) \<or> feq norm2 (Fin 0) then Inr (Fin 0)
                    else py_truediv dot_product (fmul norm1 norm2)))"

text \<open>
  \<open>VectorStore.add_document\<close>. The stored chunk is the object whose embedding fields the call
  sets.
\<close>
definition add_document :: "platform \<Rightarrow> VectorStore \<Rightarrow> DocumentChunk \<Rightarrow> bool \<times> VectorStore" where
  "add_document P store chunk =
     (let dense = encode P (content chunk);
          sparse = generate_sparse_embedding (content chunk)
      in (True,
          \<lparr>dense_vectors = AList.update (chunk_id chunk) dense (dense_vectors store),
           sparse_vectors = AList.update (chunk_id chunk) sparse (sparse_vectors store),
           documents = AList.update (chunk_id chunk)
                         (chunk\<lparr>dense_embedding := Some dense, sparse_embedding := Some sparse\<rparr>)
                         (documents store)\<rparr>))"

text \<open>\<open>xs[:n]\<close> for an integer \<open>n\<close>: a negative \<open>n\<close> drops that many elements from the end.\<close>
definition py_take :: "int \<Rightarrow> 'a list \<Rightarrow> 'a list" where
  "py_take n xs = (if n \<ge> 0 then take (nat n) xs else take (length xs - nat (- n)) xs)"

text \<open>
  The hybrid score of one stored document; \<open>None\<close> is an exception: the \<open>KeyError\<close> of a
  missing vector, or one that \<open>_sparse_similarity\<close> raises.
\<close>
definition hybrid_score ::
  "platform \<Rightarrow> VectorStore \<Rightarrow> RetrievalConfig \<Rightarrow> pyfloat list \<Rightarrow> (string \<times> pyfloat) list \<Rightarrow> string
     \<Rightarrow> (string \<times> pyfloat) option" where
  "hybrid_score P store cfg query_dense query_sparse doc_id =
     (case map_of (dense_vectors store) doc_id of
        None \<Rightarrow> None
      | Some dv \<Rightarrow>
          (case map_of (sparse_vectors store) doc_id of
             None \<Rightarrow> None
           | Some sv \<Rightarrow>
               (let dense_sim = cosine_similarity P query_dense dv
                in case sparse_similarity P query_sparse sv of
                     Inl e \<Rightarrow> None
                   | Inr sparse_sim \<Rightarrow>
                       Some (doc_id,
                             fadd (fmul (dense_weight cfg) dense_sim)
                                  (fmul (sparse_weight cfg) sparse_sim)))))"

text \<open>\<open>VectorStore.similarity_search\<close>; an exception in the loop gives the empty list.\<close>
definition similarity_search ::
  "platform \<Rightarrow> VectorStore \<Rightarrow> string \<Rightarrow> RetrievalConfig \<Rightarrow> (string \<times> pyfloat) list" where
  "similarity_search P store q cfg =
     (let query_dense = encode P q;
          query_sparse = generate_sparse_embedding q
      in case those (map (hybrid_score P store cfg query_dense query_sparse)
                      (map fst (documents store))) of
           None \<Rightarrow> []
         | Some scores \<Rightarrow>
             let similarities = filter (\<lambda>(doc_id, s). fge s (similarity_threshold cfg)) scores
             in py_take (max_results cfg) (sort_desc snd similarities))"

subsection \<open>Retrieval agent\<close>

record RetrievalAgent =
  config :: RetrievalConfig
  vector_store :: VectorStore

text \<open>\<open>RetrievalAgent.__init__\<close>\<close>
definition new_retrieval_agent :: "RetrievalConfig \<Rightarrow> RetrievalAgent" where
  "new_retrieval_agent cfg = \<lparr>config = cfg, vector_store = new_vector_store\<rparr>"

text \<open>\<open>RetrievalAgent.add_documents\<close>: the success flag and the agent's new state.\<close>
definition add_documents ::
  "platform \<Rightarrow> RetrievalAgent \<Rightarrow> DocumentChunk list \<Rightarrow> bool \<times> RetrievalAgent" where
  "add_documents P agent chunks =
     (case foldl (\<lambda>(success_count, store) chunk.
                    case add_document P store chunk of
                      (ok, store') \<Rightarrow> (if ok then success_count + 1 else success_count, store'))
                 (0 :: nat, vector_store agent) chunks of
        (success_count, store') \<Rightarrow>
          (success_count = length chunks, agent\<lparr>vector_store := store'\<rparr>))"

definition entity_weight :: "string \<Rightarrow> pyfloat" where
  "entity_weight entity_type =
     (case map_of [(''procedure'', float_of_real 1.5), (''age'', float_of_real 1.2),
                   (''location'', float_of_real 1.3), (''policy_duration'', float_of_real 1.4)]
             entity_type of
        None \<Rightarrow> Fin 1 | Some w \<Rightarrow> w)"

text \<open>The bonus of one clause: \<open>bonus_score += entity_weights.get(entity_type, 1.0) * 0.1\<close>.\<close>
definition bonus_score :: "entities \<Rightarrow> string \<Rightarrow> pyfloat" where
  "bonus_score ents clause_text_lower =
     foldl (\<lambda>bonus (entity_type, v).
              if is_str v \<and> py_contains (py_lower (py_str v)) clause_text_lower
              then fadd bonus (fmul (entity_weight entity_type) (float_of_real 0.1)) else bonus)
       (Fin 0) ents"

text \<open>\<open>RetrievalAgent._rerank_results\<close>\<close>
definition rerank ::
  "string \<Rightarrow> pyfloat SourceClause list \<Rightarrow> parsed_query \<Rightarrow> pyfloat SourceClause list" where
  "rerank original results parsed =
     sort_desc relevance_score
       (map (\<lambda>clause. clause\<lparr>relevance_score :=
                py_min (Fin 1)
                  (fadd (relevance_score clause)
                     (bonus_score (parsed_entities parsed) (py_lower (clause_text clause))))\<rparr>)
          results)"

text \<open>The \<open>SourceClause\<close> of a search result; \<open>None\<close> is the \<open>KeyError\<close> of a missing document.\<close>
definition to_source_clause :: "VectorStore \<Rightarrow> string \<times> pyfloat \<Rightarrow> pyfloat SourceClause option" where
  "to_source_clause store r =
     (case map_of (documents store) (fst r) of
        None \<Rightarrow> None
      | Some chunk \<Rightarrow>
          Some \<lparr>document_name = document_source chunk, clause_id = chunk_id chunk,
                clause_text = content chunk, relevance_score = snd r,
                page_number = map_option (\<lambda>m. int (paragraph_index m)) (metadata chunk)\<rparr>)"

text \<open>\<open>RetrievalAgent.retrieve_relevant_documents\<close>\<close>
definition retrieve_relevant_documents ::
  "platform \<Rightarrow> RetrievalAgent \<Rightarrow> string \<Rightarrow> pyfloat SourceClause list" where
  "retrieve_relevant_documents P agent q =
     (let parsed = parse_query q;
          enhanced_query = q @ '' '' @ structured_query parsed;
          similar_docs = similarity_search P (vector_store agent) enhanced_query (config agent)
      in case those (map (to_source_clause (vector_store agent)) similar_docs) of
           None \<Rightarrow> []
         | Some clauses \<Rightarrow>
             if rerank_results (config agent) then rerank q clauses parsed else clauses)"

subsection \<open>Configuration (\<open>src/config.py\<close>)\<close>

text \<open>The settings \<open>validate_configuration\<close> and the orchestrator read.\<close>
record Settings =
  settings_max_chunk_size :: int
  settings_min_chunk_size :: int
  settings_dense_weight :: pyfloat
  settings_sparse_weight :: pyfloat
  settings_similarity_threshold :: pyfloat
  settings_max_results :: int
  default_age_min :: int
  default_age_max :: int

text \<open>
  \<open>validate_configuration\<close>. The issues of the directories that could not be created come
  first; they are the parameter \<open>dir_issues\<close>.
\<close>
definition validate_configuration :: "string list \<Rightarrow> Settings \<Rightarrow> string list" where
  "validate_configuration dir_issues st =
     dir_issues
     @ (if fne (fadd (settings_dense_weight st) (settings_sparse_weight st)) (Fin 1)
        then [''Dense weight + Sparse weight must equal 1.0''] else [])
     @ (if settings_max_chunk_size st \<le> settings_min_chunk_size st
        then [''Max chunk size must be greater than min chunk size''] else [])
     @ (if flt (settings_similarity_threshold st) (Fin 0)
           \<or> fgt (settings_similarity_threshold st) (Fin 1)
        then [''Similarity threshold must be between 0 and 1''] else [])
     @ (if default_age_min st \<ge> default_age_max st
        then [''Default minimum age must be less than maximum age''] else [])"

text \<open>
  The start of \<open>main.py\<close>: with any issue the process exits with status 1 before the
  orchestrator is created; without, \<open>AgentOrchestrator.__init__\<close> builds the retrieval
  configuration from the settings.
\<close>
definition startup :: "string list \<Rightarrow> Settings \<Rightarrow> int + RetrievalConfig" where
  "startup dir_issues st =
     (if validate_configuration dir_issues st \<noteq> [] then Inl 1
      else Inr \<lparr>dense_weight = settings_dense_weight st, sparse_weight = settings_sparse_weight st,
                max_results = settings_max_results st,
                similarity_threshold = settings_similarity_threshold st,
                rerank_results = True\<rparr>)"

subsection \<open>A platform for the examples\<close>

text \<open>The largest \<open>s\<close> with \<open>s * s \<le> n\<close>.\<close>
fun isqrt :: "nat \<Rightarrow> nat" where
  "isqrt n =
     (if n < 2 then n
      else let s = 2 * isqrt (n div 4) in if (s + 1) * (s + 1) \<le> n then s + 1 else s)"

text \<open>
  The square root of IEEE 754, the double nearest to the exact root: the root of a double
  lies between two doubles of 53 bits and never half-way.
\<close>
fun sqrt_double :: "pyfloat \<Rightarrow> pyfloat" where
  "sqrt_double (Fin x) =
     (if x < 0 then NaN
      else if x = 0 then Fin 0
      else
        let k = floor_log2 x div 2 - 52;
            t = x / 2 powi (2 * k);
            s = int (isqrt (nat \<lfloor>t\<rfloor>));
            n = (if (of_int s + 1 / 2) ^ 2 < t then s + 1 else s)
        in Fin (of_int n * 2 powi k))"
| "sqrt_double PInf = PInf"
| "sqrt_double NInf = NaN"
| "sqrt_double NaN = NaN"

declare isqrt.simps [simp del] sqrt_double.simps [simp del]

text \<open>
  The platform of the examples. Every text has the embedding \<open>[1.0]\<close>, but a text with the
  word \<open>refund\<close> has \<open>[-1.0]\<close>; all sums run from left to right; \<open>x ** 2\<close> is the rounded
  product and \<open>x ** 0.5\<close> the rounded root, as a correctly rounded \<open>pow\<close> gives them.
\<close>
definition example_platform :: platform where
  "example_platform =
     \<lparr>encode = (\<lambda>txt. if py_contains ''refund'' txt then [Fin (- 1)] else [Fin 1]),
      np_dot = (\<lambda>v1 v2. foldl fadd (Fin 0) (map2 fmul v1 v2)),
      np_norm = (\<lambda>v. sqrt_double (foldl fadd (Fin 0) (map (\<lambda>x. fmul x x) v))),
      float_pow = (\<lambda>x y. if y = Fin 2 then Inr (fmul x x)
                          else if y = Fin (1 / 2) then Inr (sqrt_double x)
                          else Inl (ValueError ''exponent not used'')),
      float_sum = foldl fadd (Fin 0)\<rparr>"

text \<open>Two chunks, and the agent of a configuration after they are indexed.\<close>
definition inquiry_chunk :: DocumentChunk where
  "inquiry_chunk =
     \<lparr>chunk_id = ''policy.txt_p0_c0'', content = ''and and general inquiry'',
      document_source = ''policy.txt'', metadata = None, dense_embedding = None,
      sparse_embedding = None\<rparr>"

definition refund_chunk :: DocumentChunk where
  "refund_chunk =
     \<lparr>chunk_id = ''policy.txt_p0_c1'', content = ''refund'',
      document_source = ''policy.txt'', metadata = None, dense_embedding = None,
      sparse_embedding = None\<rparr>"

definition indexed_agent :: "RetrievalConfig \<Rightarrow> DocumentChunk list \<Rightarrow> RetrievalAgent" where
  "indexed_agent cfg chunks = snd (add_documents example_platform (new_retrieval_agent cfg) chunks)"

text \<open>Configurations of the examples.\<close>
definition sparse_only_config :: RetrievalConfig where
  "sparse_only_config =
     \<lparr>dense_weight = Fin 0, sparse_weight = Fin 1, max_results = 10,
      similarity_threshold = float_of_real 0.6, rerank_results = False\<rparr>"

definition dense_only_config :: RetrievalConfig where
  "dense_only_config =
     \<lparr>dense_weight = Fin 1, sparse_weight = Fin 0, max_results = 10,
      similarity_threshold = Fin (- 1), rerank_results = False\<rparr>"

definition high_threshold_config :: RetrievalConfig where
  "high_threshold_config =
     \<lparr>dense_weight = Fin 3, sparse_weight = Fin 0, max_results = 10,
      similarity_threshold = Fin 2, rerank_results = True\<rparr>"

definition unnormalised_config :: RetrievalConfig where
  "unnormalised_config =
     \<lparr>dense_weight = float_of_real 0.9, sparse_weight = float_of_real 0.9, max_results = 10,
      similarity_threshold = float_of_real 0.6, rerank_results = True\<rparr>"

section \<open>Semantic chunker (\<open>src/agents/semantic_chunker.py\<close>)\<close>

record ChunkingConfig =
  max_chunk_size :: int
  min_chunk_size :: int
  overlap_size :: int
  semantic_threshold :: real
  preserve_sentences :: bool
  preserve_paragraphs :: bool

definition default_chunking_config :: ChunkingConfig where
  "default_chunking_config =
     \<lparr>max_chunk_size = 512, min_chunk_size = 50, overlap_size = 50,
      semantic_threshold = 0.7, preserve_sentences = True, preserve_paragraphs = True\<rparr>"

text \<open>
  \<open>re.sub(pattern, repl, text)\<close> and \<open>pattern.split(text)\<close> for patterns without groups. (After
  a match of the empty string the scan moves on by one character; no pattern of the chunker
  matches the empty string.)
\<close>
function re_sub :: "regex \<Rightarrow> string \<Rightarrow> char option \<Rightarrow> string \<Rightarrow> string" where
  "re_sub r repl prev s =
     (case rmatch r (prev, s, []) of
        [] \<Rightarrow> (case s of [] \<Rightarrow> [] | c # cs \<Rightarrow> c # re_sub r repl (Some c) cs)
      | st # sts \<Rightarrow>
          if length (fst (snd st)) < length s
          then repl @ re_sub r repl (fst st) (fst (snd st))
          else repl @ (case s of [] \<Rightarrow> [] | c # cs \<Rightarrow> c # re_sub r repl (Some c) cs))"
  by pat_completeness auto
termination
  by (relation "measure (\<lambda>(r, repl, prev, s). length s)") auto

declare re_sub.simps [simp del]

function re_split_aux :: "regex \<Rightarrow> char option \<Rightarrow> string \<Rightarrow> string \<Rightarrow> string list" where
  "re_split_aux r prev s cur =
     (case rmatch r (prev, s, []) of
        [] \<Rightarrow> (case s of [] \<Rightarrow> [cur] | c # cs \<Rightarrow> re_split_aux r (Some c) cs (cur @ [c]))
      | st # sts \<Rightarrow>
          if length (fst (snd st)) < length s
          then cur # re_split_aux r (fst st) (fst (snd st)) []
          else (case s of [] \<Rightarrow> [cur] | c # cs \<Rightarrow> re_split_aux r (Some c) cs (cur @ [c])))"
  by pat_completeness auto
termination
  by (relation "measure (\<lambda>(r, prev, s, cur). length s)") auto

declare re_split_aux.simps [simp del]

definition re_split :: "regex \<Rightarrow> string \<Rightarrow> string list" where
  "re_split r s = re_split_aux r None s []"

text \<open>\<open>[.!?]+\<close>\<close>
definition sentence_endings :: regex where
  "sentence_endings = Plus (Chr (\<lambda>c. c \<in> set ''.!?''))"

text \<open>\<open>\n\s*\n\<close>\<close>
definition paragraph_breaks :: regex where
  "paragraph_breaks = seq [Chr (\<lambda>c. c = CHR 0x0A), Star space, Chr (\<lambda>c. c = CHR 0x0A)]"

text \<open>\<open>[^\w\s\.\,\!\?\:\;\-\(\)\[\]\n]\<close>\<close>
definition special_characters :: regex where
  "special_characters =
     Chr (\<lambda>c. \<not> (is_word_char c \<or> isspace c \<or> c \<in> set ''.,!?:;-()[]'' \<or> c = CHR 0x0A))"

text \<open>\<open>_preprocess_content\<close>\<close>
definition preprocess_content :: "string \<Rightarrow> string" where
  "preprocess_content c =
     py_strip
       (re_sub special_characters [] None
          (re_sub paragraph_breaks [CHR 0x0A, CHR 0x0A] None
             (re_sub (Plus space) '' '' None c)))"

text \<open>\<open>_extract_paragraphs\<close>\<close>
definition extract_paragraphs :: "ChunkingConfig \<Rightarrow> string \<Rightarrow> string list" where
  "extract_paragraphs cfg c =
     (if preserve_paragraphs cfg
      then filter (\<lambda>p. p \<noteq> []) (map py_strip (re_split paragraph_breaks c))
      else [c])"

text \<open>The slices \<open>words[i:i+n]\<close> for \<open>i\<close> in \<open>range(0, len(words), n)\<close>.\<close>
fun groups_of :: "nat \<Rightarrow> nat \<Rightarrow> 'a list \<Rightarrow> 'a list list" where
  "groups_of 0 n xs = []"
| "groups_of (Suc k) n xs = (if xs = [] then [] else take n xs # groups_of k n (drop n xs))"

text \<open>\<open>_extract_sentences\<close>\<close>
definition extract_sentences :: "ChunkingConfig \<Rightarrow> string \<Rightarrow> string list" where
  "extract_sentences cfg txt =
     (if \<not> preserve_sentences cfg
      then map (py_join '' '') (groups_of (length (py_split txt)) 20 (py_split txt))
      else filter (\<lambda>s. s \<noteq> [] \<and> length s > 10) (map py_strip (re_split sentence_endings txt)))"

definition stop_words :: "string list" where
  "stop_words =
     [''the'', ''a'', ''an'', ''and'', ''or'', ''but'', ''in'', ''on'', ''at'', ''to'', ''for'',
      ''of'', ''with'', ''by'', ''is'', ''are'', ''was'', ''were'', ''be'', ''been'', ''being'',
      ''have'', ''has'', ''had'', ''do'', ''does'', ''did'', ''will'', ''would'', ''could'',
      ''should'', ''may'', ''might'', ''must'', ''can'', ''this'', ''that'', ''these'', ''those'']"

text \<open>\<open>phrase_freq[phrase] = phrase_freq.get(phrase, 0) + 1\<close>\<close>
definition count_phrase :: "(string \<times> nat) list \<Rightarrow> string \<Rightarrow> (string \<times> nat) list" where
  "count_phrase phrase_freq p =
     AList.update p (case map_of phrase_freq p of None \<Rightarrow> 1 | Some n \<Rightarrow> n + 1) phrase_freq"

text \<open>\<open>_extract_key_phrases\<close>\<close>
definition extract_key_phrases :: "string \<Rightarrow> string list" where
  "extract_key_phrases c =
     (let words = py_split (py_lower c);
          key_words = filter (\<lambda>w. w \<notin> set stop_words \<and> length w > 3) words;
          bigrams = filter (\<lambda>p. length p > 6)
                      (map (\<lambda>i. py_join '' '' (take 2 (drop i key_words))) [0..<length key_words - 1]);
          trigrams = filter (\<lambda>p. length p > 10)
                       (map (\<lambda>i. py_join '' '' (take 3 (drop i key_words))) [0..<length key_words - 2]);
          phrase_freq = foldl count_phrase [] (bigrams @ trigrams);
          sorted_phrases = sort_key (\<lambda>(p, freq). - int freq) phrase_freq
      in map fst (take 5 sorted_phrases))"

text \<open>\<open>_determine_chunk_type\<close>\<close>
definition determine_chunk_type :: "string \<Rightarrow> string" where
  "determine_chunk_type c =
     (let content_lower = py_lower c
      in if list_ex (\<lambda>w. py_contains w content_lower) [''policy'', ''coverage'', ''premium'', ''deductible'']
           then ''policy_clause''
         else if list_ex (\<lambda>w. py_contains w content_lower) [''waiting'', ''period'', ''eligible'', ''claim'']
           then ''eligibility_rule''
         else if list_ex (\<lambda>w. py_contains w content_lower) [''amount'', ''payment'', ''reimbursement'', ''$'']
           then ''financial_clause''
         else if list_ex (\<lambda>w. py_contains w content_lower) [''exclusion'', ''not covered'', ''limitation'']
           then ''exclusion_clause''
         else if length (filter (\<lambda>x. x = CHR '':'') c) > 2 \<or> length (filter (\<lambda>x. x = CHR ''|'') c) > 2
           then ''structured_data''
         else ''general_content'')"

text \<open>\<open>_create_chunk\<close>\<close>
definition create_chunk :: "string \<Rightarrow> string \<Rightarrow> nat \<Rightarrow> nat \<Rightarrow> DocumentChunk" where
  "create_chunk c source pidx cidx =
     \<lparr>chunk_id = source @ ''_p'' @ str_of_nat pidx @ ''_c'' @ str_of_nat cidx,
      content = c,
      document_source = source,
      metadata = Some \<lparr>paragraph_index = pidx, chunk_index = cidx,
                        word_count = length (py_split c), character_count = length c,
                        key_phrases = extract_key_phrases c,
                        chunk_type = determine_chunk_type c\<rparr>,
      dense_embedding = None, sparse_embedding = None\<rparr>"

text \<open>\<open>xs[i:]\<close> for an integer \<open>i\<close>: a negative \<open>i\<close> counts from the end.\<close>
definition py_slice_from :: "int \<Rightarrow> 'a list \<Rightarrow> 'a list" where
  "py_slice_from i xs = (if i \<ge> 0 then drop (nat i) xs else drop (length xs - nat (- i)) xs)"

text \<open>\<open>_add_overlap\<close>\<close>
definition add_overlap :: "ChunkingConfig \<Rightarrow> DocumentChunk list \<Rightarrow> string \<Rightarrow> string" where
  "add_overlap cfg existing_chunks new_sentence =
     (if existing_chunks = [] \<or> overlap_size cfg = 0 then new_sentence
      else
        let previous_content = content (last existing_chunks);
            words = py_split previous_content
        in if int (length words) > overlap_size cfg
           then py_join '' '' (py_slice_from (- overlap_size cfg) words) @ '' '' @ new_sentence
           else previous_content @ '' '' @ new_sentence)"

text \<open>
  The body of the loop of \<open>_chunk_paragraph\<close> for one sentence, on the chunks built so far
  and the current chunk text.
\<close>
definition chunk_step ::
  "ChunkingConfig \<Rightarrow> string \<Rightarrow> nat \<Rightarrow> DocumentChunk list \<times> string \<Rightarrow> string
     \<Rightarrow> DocumentChunk list \<times> string" where
  "chunk_step cfg source pidx acc sentence =
     (case acc of (chunks, current_chunk) \<Rightarrow>
        let potential_chunk =
              (if current_chunk \<noteq> [] then current_chunk @ '' '' @ sentence else sentence)
        in if int (length potential_chunk) > max_chunk_size cfg \<and> current_chunk \<noteq> [] then
             (let chunks' =
                    (if int (length current_chunk) \<ge> min_chunk_size cfg
                     then chunks @ [create_chunk (py_strip current_chunk) source pidx (length chunks)]
                     else chunks)
              in (chunks', add_overlap cfg chunks' sentence))
           else (chunks, potential_chunk))"

definition chunk_loop ::
  "ChunkingConfig \<Rightarrow> string \<Rightarrow> nat \<Rightarrow> string list \<Rightarrow> DocumentChunk list \<times> string" where
  "chunk_loop cfg source pidx sentences = foldl (chunk_step cfg source pidx) ([], []) sentences"

text \<open>\<open>_chunk_paragraph\<close>\<close>
definition chunk_paragraph :: "ChunkingConfig \<Rightarrow> string \<Rightarrow> string \<Rightarrow> nat \<Rightarrow> DocumentChunk list" where
  "chunk_paragraph cfg paragraph source pidx =
     (if int (length paragraph) \<le> max_chunk_size cfg
      then [create_chunk paragraph source pidx 0]
      else
        (case chunk_loop cfg source pidx (extract_sentences cfg paragraph) of
           (chunks, current_chunk) \<Rightarrow>
             if current_chunk \<noteq> [] \<and> int (length current_chunk) \<ge> min_chunk_size cfg
             then chunks @ [create_chunk (py_strip current_chunk) source pidx (length chunks)]
             else chunks))"

text \<open>The body of the loop of \<open>_optimize_chunks\<close> for one chunk.\<close>
definition optimize_step :: "ChunkingConfig \<Rightarrow> DocumentChunk list \<Rightarrow> DocumentChunk \<Rightarrow> DocumentChunk list" where
  "optimize_step cfg optimized chunk =
     (if int (length (content chunk)) < min_chunk_size cfg
         \<and> optimized \<noteq> []
         \<and> int (length (content (last optimized))) + int (length (content chunk)) < max_chunk_size cfg
      then
        (let merged_content = content (last optimized) @ '' '' @ content chunk
         in butlast optimized
            @ [(last optimized)\<lparr>content := merged_content,
                 metadata := map_option
                   (\<lambda>m. m\<lparr>word_count := length (py_split merged_content),
                           character_count := length merged_content\<rparr>)
                   (metadata (last optimized))\<rparr>])
      else optimized @ [chunk])"

text \<open>\<open>_optimize_chunks\<close>\<close>
definition optimize_chunks :: "ChunkingConfig \<Rightarrow> DocumentChunk list \<Rightarrow> DocumentChunk list" where
  "optimize_chunks cfg chunks = foldl (optimize_step cfg) [] chunks"

text \<open>\<open>SemanticChunkerAgent.create_chunks\<close>\<close>
definition create_chunks :: "ChunkingConfig \<Rightarrow> string \<Rightarrow> string \<Rightarrow> DocumentChunk list" where
  "create_chunks cfg document_content source =
     (let cleaned_content = preprocess_content document_content;
          paragraphs = extract_paragraphs cfg cleaned_content;
          chunks = concat (map (\<lambda>(i, paragraph). chunk_paragraph cfg paragraph source i)
                             (enumerate 0 paragraphs))
      in optimize_chunks cfg chunks)"


subsection \<open>Notions for the properties of the chunker\<close>

text \<open>A non-empty string with no white space at either end: \<open>strip\<close> leaves it as it is.\<close>
definition tidy :: "string \<Rightarrow> bool" where
  "tidy s = (s \<noteq> [] \<and> \<not> isspace (hd s) \<and> \<not> isspace (last s))"

text \<open>
  A chunk is within the maximal size, or it is the seed of a new chunk: one sentence, after
  the overlap taken from the chunks before it.
\<close>
definition within_max_or_seed ::
  "ChunkingConfig \<Rightarrow> string list \<Rightarrow> DocumentChunk list \<Rightarrow> DocumentChunk \<Rightarrow> bool" where
  "within_max_or_seed cfg sentences previous c =
     (int (length (content c)) \<le> max_chunk_size cfg
      \<or> list_ex (\<lambda>s. content c = py_strip (add_overlap cfg previous s)) sentences)"

text \<open>Configurations of the examples.\<close>
definition small_config :: ChunkingConfig where
  "small_config =
     \<lparr>max_chunk_size = 20, min_chunk_size = 5, overlap_size = 0,
      semantic_threshold = 0.7, preserve_sentences = True, preserve_paragraphs = True\<rparr>"

definition overlap_config :: ChunkingConfig where
  "overlap_config =
     \<lparr>max_chunk_size = 20, min_chunk_size = 5, overlap_size = 1,
      semantic_threshold = 0.7, preserve_sentences = True, preserve_paragraphs = True\<rparr>"

definition lossy_config :: ChunkingConfig where
  "lossy_config =
     \<lparr>max_chunk_size = 30, min_chunk_size = 20, overlap_size = 0,
      semantic_threshold = 0.7, preserve_sentences = True, preserve_paragraphs = True\<rparr>"

definition negative_overlap_config :: ChunkingConfig where
  "negative_overlap_config =
     \<lparr>max_chunk_size = 20, min_chunk_size = 13, overlap_size = - 1,
      semantic_threshold = 0.7, preserve_sentences = True, preserve_paragraphs = True\<rparr>"

text \<open>The chunks of \<open>create_chunks\<close> before \<open>_optimize_chunks\<close>, the merge pass.\<close>
definition paragraph_chunks :: "ChunkingConfig \<Rightarrow> string \<Rightarrow> string \<Rightarrow> DocumentChunk list" where
  "paragraph_chunks cfg document_content source =
     concat (map (\<lambda>(i, paragraph). chunk_paragraph cfg paragraph source i)
               (enumerate 0 (extract_paragraphs cfg (preprocess_content document_content))))"

text \<open>The sentences that \<open>create_chunks\<close> extracts from the paragraphs of a document.\<close>
definition chunk_sentences :: "ChunkingConfig \<Rightarrow> string \<Rightarrow> string list" where
  "chunk_sentences cfg document_content =
     concat (map (extract_sentences cfg)
               (extract_paragraphs cfg (preprocess_content document_content)))"

section \<open>Properties of the decision agent\<close>

section \<open>Properties of the floats\<close>

lemma floor_log2_bounds:
  "0 < a \<Longrightarrow> 2 powi (floor_log2 a) \<le> a \<and> a < 2 powi (floor_log2 a + 1)"
proof (induction a rule: floor_log2.induct)
  case (1 a)
  consider "2 \<le> a" | "a < 1" | "1 \<le> a" "a < 2" by linarith
  then show ?case
  proof cases
    case 1
    with "1.prems" have e: "floor_log2 a = floor_log2 (a / 2) + 1"
      by (subst floor_log2.simps) simp
    from "1.IH"(1) 1 "1.prems" have "2 powi (floor_log2 (a / 2)) \<le> a / 2 \<and> a / 2 < 2 powi (floor_log2 (a / 2) + 1)"
      by simp
    then show ?thesis unfolding e by (simp add: power_int_add)
  next
    case 2
    with "1.prems" have e: "floor_log2 a = floor_log2 (a * 2) - 1"
      by (subst floor_log2.simps) simp
    from "1.IH"(2) 2 "1.prems" have "2 powi (floor_log2 (a * 2)) \<le> a * 2 \<and> a * 2 < 2 powi (floor_log2 (a * 2) + 1)"
      by simp
    then show ?thesis unfolding e by (simp add: power_int_add power_int_diff)
  next
    case 3
    then have "floor_log2 a = 0" by (subst floor_log2.simps) simp
    with 3 show ?thesis by simp
  qed
qed

lemma floor_log2_unique:
  assumes "2 powi e \<le> a" "a < 2 powi (e + 1)"
  shows "floor_log2 a = e"
proof -
  have pos: "0 < a" using assms(1) zero_less_power_int [of "2 :: real" e] by linarith
  let ?f = "floor_log2 a"
  from floor_log2_bounds [OF pos] have b: "2 powi ?f \<le> a" "a < 2 powi (?f + 1)" by simp_all
  have "(2 :: real) powi e < 2 powi (?f + 1)" using assms(1) b(2) by linarith
  then have "e < ?f + 1" using power_int_increasing [of "?f + 1" e "2 :: real"] by fastforce
  moreover have "(2 :: real) powi ?f < 2 powi (e + 1)" using assms(2) b(1) by linarith
  then have "?f < e + 1" using power_int_increasing [of "e + 1" ?f "2 :: real"] by fastforce
  ultimately show ?thesis by simp
qed

lemma floor_log2_mono:
  assumes "0 < a" "a \<le> b"
  shows "floor_log2 a \<le> floor_log2 b"
proof (rule ccontr)
  assume "\<not> floor_log2 a \<le> floor_log2 b"
  then have "floor_log2 b + 1 \<le> floor_log2 a" by simp
  then have "(2 :: real) powi (floor_log2 b + 1) \<le> 2 powi (floor_log2 a)"
    by (intro power_int_increasing) simp_all
  moreover from assms have "0 < b" by simp
  ultimately show False
    using floor_log2_bounds [OF assms(1)] floor_log2_bounds [OF \<open>0 < b\<close>] assms(2) by linarith
qed

lemma rne_of_int [simp]: "rne (of_int n) = n"
  by (simp add: rne_def)

lemma rne_bounds: "\<lfloor>x\<rfloor> \<le> rne x \<and> rne x \<le> \<lfloor>x\<rfloor> + 1"
  by (simp add: rne_def Let_def)

lemma rne_mono:
  assumes "x \<le> y"
  shows "rne x \<le> rne y"
proof (cases "\<lfloor>x\<rfloor> = \<lfloor>y\<rfloor>")
  case True
  with assms have "x - of_int \<lfloor>x\<rfloor> \<le> y - of_int \<lfloor>y\<rfloor>" by simp
  with True show ?thesis by (auto simp: rne_def Let_def)
next
  case False
  with assms have "\<lfloor>x\<rfloor> + 1 \<le> \<lfloor>y\<rfloor>" using floor_mono [OF assms] by linarith
  with rne_bounds [of x] rne_bounds [of y] show ?thesis by linarith
qed

lemma rne_ge_int: "of_int n \<le> x \<Longrightarrow> n \<le> rne x"
  using rne_mono [of "of_int n" x] by simp

lemma rne_le_int: "x \<le> of_int n \<Longrightarrow> rne x \<le> n"
  using rne_mono [of x "of_int n"] by simp

lemma ulp_pos: "0 < ulp a"
  by (simp add: ulp_def zero_less_power_int)

lemma pow2_nat: "(2 :: real) powi (int n) = of_int (2 ^ n)"
  by (simp add: power_int_of_nat)

lemma pow2_nonneg_int: "0 \<le> k \<Longrightarrow> (2 :: real) powi k = of_int (2 ^ nat k)"
  using pow2_nat [of "nat k"] by simp

lemma round_pos_nonneg: "0 < a \<Longrightarrow> 0 \<le> round_pos a"
proof -
  assume "0 < a"
  then have "0 \<le> a / ulp a" using ulp_pos [of a] by simp
  then have "0 \<le> rne (a / ulp a)" using rne_ge_int [of 0] by simp
  then show ?thesis using ulp_pos [of a] by (simp add: round_pos_def)
qed

lemma rne_small: "0 \<le> x \<Longrightarrow> x < 1 / 2 \<Longrightarrow> rne x = 0"
proof -
  assume a: "0 \<le> x" "x < 1 / 2"
  then have "\<lfloor>x\<rfloor> = 0" by (intro floor_unique) simp_all
  with a show ?thesis by (simp add: rne_def)
qed

lemma round_pos_upper:
  assumes "0 < a"
  shows "round_pos a \<le> 2 powi (floor_log2 a + 1)"
proof -
  define f where "f = floor_log2 a"
  define k where "k = max f (- 1022) - 52"
  have u: "ulp a = 2 powi k" by (simp add: ulp_def k_def f_def)
  from floor_log2_bounds [OF assms] have "a < 2 powi (f + 1)" by (simp add: f_def)
  then have "a / ulp a < 2 powi (f + 1) / 2 powi k"
    unfolding u by (simp add: divide_strict_right_mono zero_less_power_int)
  also have "\<dots> = 2 powi (f + 1 - k)" by (simp add: power_int_diff)
  finally have q: "a / ulp a < 2 powi (f + 1 - k)" .
  show ?thesis
  proof (cases "0 \<le> f + 1 - k")
    case True
    then have "(2 :: real) powi (f + 1 - k) = of_int (2 ^ nat (f + 1 - k))"
      by (rule pow2_nonneg_int)
    with q have "rne (a / ulp a) \<le> 2 ^ nat (f + 1 - k)" by (intro rne_le_int) simp
    then have "of_int (rne (a / ulp a)) \<le> (of_int (2 ^ nat (f + 1 - k)) :: real)"
      by (simp only: of_int_le_iff)
    also have "\<dots> = 2 powi (f + 1 - k)" using True by (simp add: pow2_nonneg_int)
    finally have "of_int (rne (a / ulp a)) * ulp a \<le> 2 powi (f + 1 - k) * 2 powi k"
      unfolding u by (simp add: zero_less_power_int)
    also have "\<dots> = 2 powi (f + 1)" by (simp flip: power_int_add)
    finally show ?thesis by (simp add: round_pos_def f_def)
  next
    case False
    then have "f + 1 - k \<le> - 1" by simp
    then have "(2 :: real) powi (f + 1 - k) \<le> 2 powi (- 1)"
      by (intro power_int_increasing) simp_all
    moreover have "(2 :: real) powi (- 1) = 1 / 2" by (simp add: power_int_minus)
    ultimately have "a / ulp a < 1 / 2" using q by linarith
    moreover have "0 \<le> a / ulp a" using assms ulp_pos [of a] by simp
    ultimately have "rne (a / ulp a) = 0" by (intro rne_small)
    then have "round_pos a = 0" by (simp add: round_pos_def)
    then show ?thesis by (simp add: zero_less_power_int less_imp_le)
  qed
qed

lemma round_pos_lower:
  assumes "0 < a" "- 1022 \<le> floor_log2 a"
  shows "2 powi (floor_log2 a) \<le> round_pos a"
proof -
  let ?f = "floor_log2 a"
  have u: "ulp a = 2 powi (?f - 52)" using assms(2) by (simp add: ulp_def max_def)
  from floor_log2_bounds [OF assms(1)] have "2 powi ?f \<le> a" by simp
  then have "2 powi ?f / 2 powi (?f - 52) \<le> a / ulp a"
    unfolding u by (simp add: divide_right_mono)
  moreover have "(2 :: real) powi ?f / 2 powi (?f - 52) = of_int (2 ^ 52)"
    by (simp add: power_int_diff)
  ultimately have "2 ^ 52 \<le> rne (a / ulp a)" by (intro rne_ge_int) (simp only:)
  then have "(of_int (2 ^ 52) :: real) \<le> of_int (rne (a / ulp a))" by (simp only: of_int_le_iff)
  then have "of_int (2 ^ 52) * 2 powi (?f - 52) \<le> of_int (rne (a / ulp a)) * ulp a"
    unfolding u by (simp add: zero_less_power_int)
  moreover have "of_int (2 ^ 52) * 2 powi (?f - 52) = (2 :: real) powi ?f"
    by (simp add: power_int_diff)
  ultimately show ?thesis by (simp add: round_pos_def)
qed

lemma round_pos_mono:
  assumes "0 < a" "a \<le> b"
  shows "round_pos a \<le> round_pos b"
proof -
  from assms have b: "0 < b" by simp
  let ?fa = "floor_log2 a" and ?fb = "floor_log2 b"
  have le: "?fa \<le> ?fb" using assms by (rule floor_log2_mono)
  show ?thesis
  proof (cases "max ?fa (- 1022) = max ?fb (- 1022)")
    case True
    then have u: "ulp a = ulp b" by (simp add: ulp_def)
    have "a / ulp b \<le> b / ulp b" using assms(2) ulp_pos [of b] by (simp add: divide_right_mono)
    then have "rne (a / ulp b) \<le> rne (b / ulp b)" by (rule rne_mono)
    then show ?thesis unfolding round_pos_def u using ulp_pos [of b] by simp
  next
    case False
    with le have fb: "- 1022 \<le> ?fb" "?fa + 1 \<le> ?fb" by (auto simp: max_def split: if_splits)
    have "round_pos a \<le> 2 powi (?fa + 1)" using assms(1) by (rule round_pos_upper)
    also have "\<dots> \<le> 2 powi ?fb" using fb(2) by (intro power_int_increasing) simp_all
    also have "\<dots> \<le> round_pos b" using b fb(1) by (rule round_pos_lower)
    finally show ?thesis .
  qed
qed

lemma floor_log2_less:
  assumes "0 < r" "r < 2 powi (e + 1)"
  shows "floor_log2 r \<le> e"
proof (rule ccontr)
  assume "\<not> floor_log2 r \<le> e"
  then have "e + 1 \<le> floor_log2 r" by simp
  then have "(2 :: real) powi (e + 1) \<le> 2 powi (floor_log2 r)"
    by (intro power_int_increasing) simp_all
  with floor_log2_bounds [OF assms(1)] assms(2) show False by linarith
qed

lemma round_pos_representable:
  assumes "0 < r" "r = of_int n * 2 powi j" "max (floor_log2 r) (- 1022) - 52 \<le> j"
  shows "round_pos r = r"
proof -
  define k where "k = max (floor_log2 r) (- 1022) - 52"
  have u: "ulp r = 2 powi k" by (simp add: ulp_def k_def)
  have d: "0 \<le> j - k" using assms(3) by (simp add: k_def)
  have "r / ulp r = of_int n * (2 powi j / 2 powi k)" unfolding u by (simp add: assms(2))
  also have "2 powi j / 2 powi k = (2 :: real) powi (j - k)" by (simp add: power_int_diff)
  also have "\<dots> = of_int (2 ^ nat (j - k))" using d by (rule pow2_nonneg_int)
  finally have q: "r / ulp r = of_int (n * 2 ^ nat (j - k))" by simp
  have "round_pos r = (r / ulp r) * ulp r" unfolding round_pos_def q rne_of_int ..
  then show ?thesis using ulp_pos [of r] by simp
qed

lemma round_pos_idem:
  assumes "0 < a" "0 < round_pos a"
  shows "round_pos (round_pos a) = round_pos a"
proof -
  let ?f = "floor_log2 a"
  let ?k = "max ?f (- 1022) - 52"
  let ?r = "round_pos a"
  let ?n = "rne (a / ulp a)"
  have r: "?r = of_int ?n * 2 powi ?k" by (simp add: round_pos_def ulp_def)
  from round_pos_upper [OF assms(1)] consider "?r < 2 powi (?f + 1)" | "?r = 2 powi (?f + 1)"
    by linarith
  then show ?thesis
  proof cases
    case 1
    with assms(2) have "floor_log2 ?r \<le> ?f" by (rule floor_log2_less)
    then have "max (floor_log2 ?r) (- 1022) - 52 \<le> ?k" by simp
    with assms(2) r show ?thesis by (rule round_pos_representable)
  next
    case 2
    then have fr: "floor_log2 ?r = ?f + 1"
      by (intro floor_log2_unique) (simp_all add: power_int_strict_increasing)
    have n: "1 \<le> ?n"
    proof (rule ccontr)
      assume "\<not> 1 \<le> ?n"
      then have "?n \<le> 0" by simp
      then have "(of_int ?n :: real) \<le> 0" by simp
      then have "?r \<le> 0" unfolding r by (simp add: mult_le_0_iff zero_less_power_int less_imp_le)
      with assms(2) show False by simp
    qed
    then have "(1 :: real) \<le> of_int ?n" by simp
    then have "(2 :: real) powi ?k \<le> of_int ?n * 2 powi ?k"
      using zero_less_power_int [of "2 :: real" ?k] by simp
    with r 2 have "(2 :: real) powi ?k \<le> 2 powi (?f + 1)" by simp
    then have kf: "?k \<le> ?f + 1"
      using power_int_strict_increasing [of "?f + 1" ?k "2 :: real"] by fastforce
    have e: "?r = of_int 1 * 2 powi (?f + 1)" using 2 by simp
    have "max (floor_log2 ?r) (- 1022) - 52 \<le> ?f + 1" unfolding fr using kf by linarith
    with assms(2) e show ?thesis by (rule round_pos_representable)
  qed
qed

lemma round_finite_mono:
  assumes "x \<le> y"
  shows "round_finite x \<le> round_finite y"
proof -
  consider "0 < x" | "x = 0" | "x < 0" "y < 0" | "x < 0" "0 \<le> y" using assms by linarith
  then show ?thesis
  proof cases
    case 1
    with assms round_pos_mono [OF 1 assms] show ?thesis by (simp add: round_finite_def)
  next
    case 2
    with assms round_pos_nonneg [of y] show ?thesis by (auto simp: round_finite_def)
  next
    case 3
    with assms have "0 < - y" "- y \<le> - x" by simp_all
    from round_pos_mono [OF this] 3 show ?thesis by (simp add: round_finite_def)
  next
    case 4
    then have "round_finite x \<le> 0" using round_pos_nonneg [of "- x"] by (simp add: round_finite_def)
    moreover have "0 \<le> round_finite y" using 4(2) round_pos_nonneg [of y] by (auto simp: round_finite_def)
    ultimately show ?thesis by simp
  qed
qed

lemma round_finite_idem: "round_finite (round_finite x) = round_finite x"
proof -
  consider "x = 0" | "0 < x" | "x < 0" by linarith
  then show ?thesis
  proof cases
    case 1
    then show ?thesis by (simp add: round_finite_def)
  next
    case 2
    with round_pos_nonneg [OF 2] round_pos_idem [OF 2] show ?thesis
      by (auto simp: round_finite_def)
  next
    case 3
    then have p: "0 < - x" by simp
    with round_pos_nonneg [OF p] round_pos_idem [OF p] 3 show ?thesis
      by (auto simp: round_finite_def)
  qed
qed

lemma round_finite_nonneg: "0 \<le> x \<Longrightarrow> 0 \<le> round_finite x"
  using round_finite_mono [of 0 x] by (simp add: round_finite_def)

lemma round_finite_zero [simp]: "round_finite 0 = 0"
  by (simp add: round_finite_def)

lemma overflow_threshold_pos: "0 < overflow_threshold"
  by (simp add: overflow_threshold_def)

lemma is_double_float_of_real: "is_double (float_of_real x)"
  by (auto simp: float_of_real_def Let_def round_finite_idem)

lemma float_of_real_mono: "x \<le> y \<Longrightarrow> fle (float_of_real x) (float_of_real y)"
  using round_finite_mono [of x y] overflow_threshold_pos
  by (auto simp: float_of_real_def Let_def)

lemma float_of_real_double: "is_double (Fin x) \<Longrightarrow> float_of_real x = Fin x"
  by (auto simp: float_of_real_def Let_def)

lemma not_nan_float_of_real: "\<not> is_nan (float_of_real x)"
  by (simp add: float_of_real_def Let_def)

lemma is_double_fadd: "is_double (fadd a b)"
  by (cases a; cases b) (simp_all add: is_double_float_of_real)

lemma is_double_fmul: "is_double (fmul a b)"
  by (cases a; cases b) (simp_all add: is_double_float_of_real signed_inf_def)

lemma fle_refl: "\<not> is_nan a \<Longrightarrow> fle a a"
  by (cases a) simp_all

lemma fle_trans: "fle a b \<Longrightarrow> fle b c \<Longrightarrow> fle a c"
  by (cases a; cases b; cases c) simp_all

lemma fle_total: "\<not> is_nan a \<Longrightarrow> \<not> is_nan b \<Longrightarrow> fle a b \<or> fle b a"
  by (cases a; cases b) auto

lemma fle_not_nan: "fle a b \<Longrightarrow> \<not> is_nan a \<and> \<not> is_nan b"
  by (cases a; cases b) simp_all

lemma fadd_increases:
  assumes "is_double s" "fle (Fin 0) b" "\<not> is_nan (fadd s b)"
  shows "fle s (fadd s b)"
proof (cases "\<exists>x y. s = Fin x \<and> b = Fin y")
  case True
  then obtain x y where s: "s = Fin x" and b: "b = Fin y" by blast
  from assms(1) s have x: "is_double (Fin x)" by simp
  from assms(2) b have "0 \<le> y" by simp
  then have "fle (float_of_real x) (float_of_real (x + y))" by (intro float_of_real_mono) simp
  with float_of_real_double [OF x] s b show ?thesis by simp
next
  case False
  with assms show ?thesis by (cases s; cases b) simp_all
qed

lemma py_min_not_nan: "\<not> is_nan a \<Longrightarrow> \<not> is_nan (py_min a b)"
  by (cases a; cases b) (simp_all add: py_min_def flt_def)

lemma py_min_le: "\<not> is_nan a \<Longrightarrow> fle (py_min a b) a"
  by (cases a; cases b) (auto simp: py_min_def flt_def)

lemma py_min_cases: "py_min a b = a \<or> py_min a b = b \<and> flt b a"
  by (simp add: py_min_def)

lemma float_of_real_zero [simp]: "float_of_real 0 = Fin 0"
  using overflow_threshold_pos by (simp add: float_of_real_def)

lemma float_of_real_nonneg: "0 \<le> x \<Longrightarrow> fle (Fin 0) (float_of_real x)"
  using float_of_real_mono [of 0 x] by simp

lemma fadd_nonneg: "fle (Fin 0) a \<Longrightarrow> fle (Fin 0) b \<Longrightarrow> fle (Fin 0) (fadd a b)"
  by (cases a; cases b) (simp_all add: float_of_real_nonneg)

lemma fmul_finite_nonneg: "0 \<le> x \<Longrightarrow> 0 \<le> y \<Longrightarrow> fle (Fin 0) (fmul (Fin x) (Fin y))"
  by (simp add: float_of_real_nonneg)

lemma round_finite_two: "round_finite 2 = 2"
proof -
  have f: "floor_log2 2 = 1" by (intro floor_log2_unique) simp_all
  have e: "(2 :: real) = of_int 1 * 2 powi 1" by simp
  have "max (floor_log2 2) (- 1022) - 52 \<le> 1" unfolding f by simp
  with e have "round_pos 2 = 2" by (rule round_pos_representable [rotated]) simp
  then show ?thesis by (simp add: round_finite_def)
qed

lemma float_of_real_small:
  assumes "0 \<le> x" "x \<le> 2"
  shows "\<exists>r\<ge>0. float_of_real x = Fin r"
proof -
  have "round_finite x \<le> 2" using round_finite_mono [OF assms(2)] by (simp add: round_finite_two)
  moreover have "0 \<le> round_finite x" using assms(1) by (rule round_finite_nonneg)
  moreover have "2 < overflow_threshold" by (simp add: overflow_threshold_def)
  ultimately show ?thesis by (auto simp: float_of_real_def Let_def)
qed

lemma set_insert_desc: "set (insert_desc key x ys) = insert x (set ys)"
  by (induction ys) auto

lemma length_insert_desc: "length (insert_desc key x ys) = Suc (length ys)"
  by (induction ys) auto

lemma set_sort_desc: "set (sort_desc key xs) = set xs"
  by (induction xs) (simp_all add: sort_desc_def set_insert_desc)

lemma length_sort_desc: "length (sort_desc key xs) = length xs"
  by (induction xs) (simp_all add: sort_desc_def length_insert_desc)

lemma sorted_insert_desc:
  assumes "\<not> is_nan (key x)" "\<forall>y \<in> set ys. \<not> is_nan (key y)"
    and "sorted_wrt (\<lambda>a b. fge (key a) (key b)) ys"
  shows "sorted_wrt (\<lambda>a b. fge (key a) (key b)) (insert_desc key x ys)"
  using assms(2,3)
proof (induction ys)
  case Nil
  then show ?case by simp
next
  case (Cons y ys)
  show ?case
  proof (cases "fge (key x) (key y)")
    case True
    have "\<forall>z \<in> set ys. fge (key x) (key z)"
    proof
      fix z assume "z \<in> set ys"
      with Cons.prems(2) have "fge (key y) (key z)" by simp
      with True show "fge (key x) (key z)" unfolding fge_def by (blast intro: fle_trans)
    qed
    with True Cons.prems(2) show ?thesis by simp
  next
    case False
    with assms(1) Cons.prems(1) have yx: "fge (key y) (key x)"
      unfolding fge_def using fle_total [of "key x" "key y"] by auto
    from Cons.IH Cons.prems have "sorted_wrt (\<lambda>a b. fge (key a) (key b)) (insert_desc key x ys)"
      by simp
    with False yx Cons.prems(2) show ?thesis by (auto simp: set_insert_desc)
  qed
qed

lemma sorted_sort_desc:
  "\<forall>x \<in> set xs. \<not> is_nan (key x) \<Longrightarrow> sorted_wrt (\<lambda>a b. fge (key a) (key b)) (sort_desc key xs)"
proof (induction xs)
  case Nil
  then show ?case by (simp add: sort_desc_def)
next
  case (Cons x xs)
  then have "sorted_wrt (\<lambda>a b. fge (key a) (key b)) (sort_desc key xs)" by simp
  moreover from Cons.prems have "\<forall>y \<in> set (sort_desc key xs). \<not> is_nan (key y)"
    by (simp add: set_sort_desc)
  moreover from Cons.prems have "\<not> is_nan (key x)" by simp
  ultimately have "sorted_wrt (\<lambda>a b. fge (key a) (key b)) (insert_desc key x (sort_desc key xs))"
    by (intro sorted_insert_desc)
  then show ?case by (simp add: sort_desc_def)
qed

text \<open>The equations that evaluate the rounding of a number.\<close>
lemmas float_eval = float_of_real_def round_finite_def round_pos_def ulp_def rne_def
  floor_log2.simps Let_def overflow_threshold_def power_int_minus power2_eq_square

lemma decide_approved_iff:
  "fst (decide vr cf) = ''approved'' \<longleftrightarrow> is_valid vr \<and> supports_coverage cf = Some True"
  by (auto simp: decide_def)

lemma calculate_coverage_amount_present:
  "calculate_coverage_amount ctx = Inr a \<Longrightarrow>
     (a \<noteq> None) = (map_of (entities ctx) ''procedure'' \<noteq> None)"
  by (auto simp: calculate_coverage_amount_def Let_def split: option.splits sum.splits if_splits)

lemma evaluate_coverage_decision_amount:
  assumes "evaluate_coverage_decision F ctx = Inr r"
  shows "(amount r \<noteq> None) =
           (decision r = ''approved'' \<and> map_of (entities ctx) ''procedure'' \<noteq> None)"
proof -
  obtain d m where dm:
    "decide (validation_result ctx)
       (evaluate_clause_support (source_clauses ctx) (entities ctx)) = (d, m)"
    by (cases "decide (validation_result ctx)
                 (evaluate_clause_support (source_clauses ctx) (entities ctx))")
  show ?thesis
  proof (cases "d = ''approved''")
    case True
    with assms dm show ?thesis
      by (auto simp: evaluate_coverage_decision_def Let_def split: sum.splits
            dest: calculate_coverage_amount_present)
  next
    case False
    with assms dm show ?thesis
      by (auto simp: evaluate_coverage_decision_def Let_def split: sum.splits)
  qed
qed

lemma decision_not_approved_when_invalid:
  "\<not> is_valid vr \<Longrightarrow> decision (fst (make_decision F h ents clauses vr qt)) \<noteq> ''approved''"
  by (auto simp: make_decision_def error_decision_def evaluate_coverage_decision_def Let_def
        decide_def split: sum.splits prod.splits if_splits)

text \<open>
  Claim C1. \<open>make_decision\<close> returns a decision on every input: whenever the rules engine
  raises an error \<open>e\<close> while deciding, the result is the decision \<open>rejected\<close> with confidence
  0.0, no amount, no factors, and the justification \<open>Error in decision processing: \<close> followed
  by the text of \<open>e\<close>.
\<close>
theorem make_decision_error_is_safe_rejection:
  assumes "evaluate_coverage_decision F
             \<lparr>entities = ents, source_clauses = clauses, validation_result = vr,
              query_type = qt, urgency_level = ''normal''\<rparr> = Inl e"
  shows "fst (make_decision F h ents clauses vr qt) =
           \<lparr>decision = ''rejected'', confidence_score = 0, amount = None,
            justification = ''Error in decision processing: '' @ error_text e,
            decision_factors = [],
            risk_assessment = \<lparr>overall_risk = ''unknown'', factors = [], risk_score = None\<rparr>\<rparr>"
  using assms by (simp add: make_decision_def error_decision_def)

text \<open>
  An age that is no integer literal makes \<open>_assess_risk\<close> raise \<open>ValueError\<close>; the decision is
  the safe rejection carrying that message.
\<close>
theorem make_decision_error_is_safe_rejection_witness:
  "evaluate_coverage_decision plain_format
     \<lparr>entities = [(''age'', PStr ''abc'')], source_clauses = [],
      validation_result = \<lparr>is_valid = True, violated_rules = [], satisfied_rules = [],
                            warnings = [], validation_details = []\<rparr>,
      query_type = ''coverage'', urgency_level = ''normal''\<rparr>
     = Inl (ValueError (''invalid literal for int() with base 10: '' @ [CHR 0x27] @ ''abc'' @ [CHR 0x27]))
   \<and> fst (make_decision plain_format [] [(''age'', PStr ''abc'')] []
            \<lparr>is_valid = True, violated_rules = [], satisfied_rules = [],
             warnings = [], validation_details = []\<rparr> ''coverage'')
     = \<lparr>decision = ''rejected'', confidence_score = 0, amount = None,
        justification = ''Error in decision processing: invalid literal for int() with base 10: ''
                          @ [CHR 0x27] @ ''abc'' @ [CHR 0x27],
        decision_factors = [],
        risk_assessment = \<lparr>overall_risk = ''unknown'', factors = [], risk_score = None\<rparr>\<rparr>"
proof -
  have raised:
    "evaluate_coverage_decision plain_format
       \<lparr>entities = [(''age'', PStr ''abc'')], source_clauses = [],
        validation_result = \<lparr>is_valid = True, violated_rules = [], satisfied_rules = [],
                              warnings = [], validation_details = []\<rparr>,
        query_type = ''coverage'', urgency_level = ''normal''\<rparr>
       = Inl (ValueError (''invalid literal for int() with base 10: '' @ [CHR 0x27] @ ''abc'' @ [CHR 0x27]))"
    by code_simp
  show ?thesis
    using raised make_decision_error_is_safe_rejection [OF raised, of "[]"] by simp
qed

text \<open>
  Claim C2, as the code has it. The amount of a decision is present exactly when the decision
  is \<open>approved\<close> and the entities hold a \<open>procedure\<close>: \<open>_calculate_coverage_amount\<close> returns
  \<open>None\<close> for entities without a procedure, so an approved decision can carry no amount, and
  every decision that is not approved carries none.
\<close>
theorem amount_present_iff_approved_with_procedure:
  "(amount (fst (make_decision F h ents clauses vr qt)) \<noteq> None) =
   (decision (fst (make_decision F h ents clauses vr qt)) = ''approved''
    \<and> map_of ents ''procedure'' \<noteq> None)"
proof (cases "evaluate_coverage_decision F
                \<lparr>entities = ents, source_clauses = clauses, validation_result = vr,
                 query_type = qt, urgency_level = ''normal''\<rparr>")
  case (Inl e)
  then show ?thesis by (simp add: make_decision_def error_decision_def)
next
  case (Inr r)
  from evaluate_coverage_decision_amount [OF Inr] Inr show ?thesis
    by (simp add: make_decision_def)
qed

text \<open>
  The claim as stated fails: for the entities \<open>{age: 46}\<close> and one clause that mentions 46 and
  coverage, validation by the default rules is valid, the decision is \<open>approved\<close>, and the
  amount is \<open>None\<close>.
\<close>
theorem amount_iff_approved_counterexample:
  "decision (fst (make_decision plain_format [] [(''age'', PStr ''46'')]
       [\<lparr>document_name = ''policy.txt'', clause_id = ''policy.txt_p0_c0'',
         clause_text = ''Members aged 46 are covered'', relevance_score = 0.9,
         page_number = None\<rparr>]
       (validate_claim default_rules [(''age'', PStr ''46'')]
          [\<lparr>document_name = ''policy.txt'', clause_id = ''policy.txt_p0_c0'',
            clause_text = ''Members aged 46 are covered'', relevance_score = 0.9,
            page_number = None\<rparr>])
       ''coverage'')) = ''approved''
   \<and> amount (fst (make_decision plain_format [] [(''age'', PStr ''46'')]
       [\<lparr>document_name = ''policy.txt'', clause_id = ''policy.txt_p0_c0'',
         clause_text = ''Members aged 46 are covered'', relevance_score = 0.9,
         page_number = None\<rparr>]
       (validate_claim default_rules [(''age'', PStr ''46'')]
          [\<lparr>document_name = ''policy.txt'', clause_id = ''policy.txt_p0_c0'',
            clause_text = ''Members aged 46 are covered'', relevance_score = 0.9,
            page_number = None\<rparr>])
       ''coverage'')) = None"
  by code_simp

section \<open>Properties of the validation agent\<close>

lemma foldl_rule_step_violated:
  "fst (foldl (rule_step ents) (v, s, w, d) rs) =
     v @ map name (filter (\<lambda>r. \<not> fst (evaluate r ents)) rs)"
  by (induction rs arbitrary: v s w d) (auto simp: rule_step_def split: prod.splits)

lemma validate_rules_violated:
  "fst (validate_rules rs ents) = map name (filter (\<lambda>r. \<not> fst (evaluate r ents)) rs)"
  by (simp add: validate_rules_def foldl_rule_step_violated)

lemma violated_rules_validate_claim:
  "violated_rules (validate_claim rules ents clauses) =
     map name (filter (\<lambda>r. \<not> fst (evaluate r ents)) (sort_key priority rules))"
  using validate_rules_violated [of "sort_key priority rules" ents]
  by (auto simp: validate_claim_def Let_def split: prod.splits)

lemma is_valid_validate_claim:
  "is_valid (validate_claim rules ents clauses) =
     (\<not> (\<exists>r \<in> set rules. \<not> fst (evaluate r ents) \<and> is_critical rules (name r)))"
proof -
  have "is_valid (validate_claim rules ents clauses) =
          (filter (is_critical rules) (fst (validate_rules (sort_key priority rules) ents)) = [])"
    by (simp add: validate_claim_def Let_def split: prod.splits)
  also have "\<dots> = (\<not> (\<exists>r \<in> set rules. \<not> fst (evaluate r ents) \<and> is_critical rules (name r)))"
    by (auto simp: validate_rules_violated filter_empty_conv)
  finally show ?thesis .
qed

lemma find_by_distinct_name:
  "distinct (map name rules) \<Longrightarrow> r \<in> set rules \<Longrightarrow>
     find (\<lambda>r'. name r' = name r) rules = Some r"
  by (induction rules) force+

lemma is_critical_distinct:
  "distinct (map name rules) \<Longrightarrow> r \<in> set rules \<Longrightarrow>
     is_critical rules (name r) = (rule_id r \<in> {''excluded_procedures'', ''age_limit''})"
  by (simp add: is_critical_def find_by_distinct_name)

lemma validate_claim_with_distinct_names:
  assumes "distinct (map name rules)"
  shows "(is_valid (validate_claim rules ents clauses) = False) =
           (\<exists>r \<in> set rules. \<not> fst (evaluate r ents)
                \<and> rule_id r \<in> {''excluded_procedures'', ''age_limit''})"
  using assms by (auto simp: is_valid_validate_claim is_critical_distinct)

text \<open>
  Claim C3 fails in the code. \<open>validate_claim\<close> takes the name of each violated rule and looks
  the rule up again by that name, first hit in the agent's list, against its own comment
  (\<open>Find the actual rule object\<close>); \<open>add_custom_rule\<close> appends a rule whatever its name. After
  \<open>add_custom_rule\<close> of a rule \<open>custom_age\<close> named \<open>Age Eligibility\<close> with minimal age 50, the
  entities \<open>{age: 46}\<close> violate that rule and no rule with a critical id, and the result is
  \<open>is_valid = False\<close>: the lookup finds the default rule \<open>age_limit\<close> of the same name. The
  other way round, a violated custom rule with the id \<open>age_limit\<close> and the name
  \<open>Waiting Period Check\<close> leaves \<open>is_valid = True\<close>.
\<close>
theorem validate_claim_name_lookup_diverges:
  "is_valid (validate_claim
       (add_custom_rule default_rules ''custom_age'' ''Age Eligibility'' [MinAge 50]
          ''check_custom_age'' 1)
       [(''age'', PStr ''46'')] []) = False
   \<and> list_all (\<lambda>r. fst (evaluate r [(''age'', PStr ''46'')])
                  \<or> rule_id r \<noteq> ''excluded_procedures'' \<and> rule_id r \<noteq> ''age_limit'')
        (add_custom_rule default_rules ''custom_age'' ''Age Eligibility'' [MinAge 50]
           ''check_custom_age'' 1)
   \<and> is_valid (validate_claim
       (add_custom_rule default_rules ''age_limit'' ''Waiting Period Check'' [MinAge 50]
          ''check_custom_age'' 1)
       [(''age'', PStr ''46'')] []) = True
   \<and> list_ex (\<lambda>r. \<not> fst (evaluate r [(''age'', PStr ''46'')]) \<and> rule_id r = ''age_limit'')
        (add_custom_rule default_rules ''age_limit'' ''Waiting Period Check'' [MinAge 50]
           ''check_custom_age'' 1)"
  by code_simp

lemma isdigit_digit_char: "k < 10 \<Longrightarrow> isdigit (digit_char k)"
proof -
  assume "k < 10"
  then have "k \<in> {0, 1, 2, 3, 4, 5, 6, 7, 8, 9}" by auto
  then show ?thesis by (auto simp: digit_char_def isdigit_def)
qed

lemma str_of_nat_has_digit: "list_ex isdigit (str_of_nat n)"
  by (induction n rule: str_of_nat.induct)
     (subst str_of_nat.simps, auto simp: isdigit_digit_char)

lemma str_of_int_has_digit: "list_ex isdigit (str_of_int i)"
  by (simp add: str_of_int_def str_of_nat_has_digit)

lemma extract_numeric_value_no_digit:
  assumes "\<not> list_ex isdigit (py_str v)"
  shows "extract_numeric_value v = Inr (Fin 0)"
proof (cases v)
  case (PInt i)
  with assms str_of_int_has_digit [of i] show ?thesis by simp
qed (use assms in \<open>auto simp: float_or_zero_def list_ex_iff\<close>)

lemma numeric_age_defaults_to_zero:
  assumes "\<forall>v. map_of ents ''age'' = Some v \<longrightarrow> \<not> list_ex isdigit (py_str v)"
  shows "extract_numeric_value (get_or ents ''age'' (PStr ''0'')) = Inr (Fin 0)"
proof (cases "map_of ents ''age''")
  case None
  have "extract_numeric_value (PStr ''0'') = Inr (Fin 0)"
    by (simp add: float_or_zero_def isdigit_def digits_value_def digit_val_def)
  with None show ?thesis by (simp add: get_or_def)
next
  case (Some v)
  with assms show ?thesis by (simp add: get_or_def extract_numeric_value_no_digit)
qed

text \<open>
  The numeric value is a double: a decimal text is rounded (17.99999999999999999999 is 18.0),
  and an integer beyond the doubles raises \<open>OverflowError\<close>.
\<close>
lemma numeric_value_rounds:
  "extract_numeric_value (PStr ''17.99999999999999999999'') = Inr (Fin 18)"
  by (simp add: float_or_zero_def isdigit_def digits_value_def digit_val_def float_eval)

lemma numeric_value_overflows:
  "extract_numeric_value (PInt (2 ^ 1024))
     = Inl (OverflowError ''int too large to convert to float'')"
proof -
  define b :: real where "b = 2 ^ 1024"
  have pos: "0 < b" by (simp add: b_def)
  have p: "(2 :: real) powi 1024 = b"
    using power_int_of_nat [of "2 :: real" 1024] by (simp add: b_def)
  have q: "(2 :: real) powi (1024 + 1) = 2 * b"
    using power_int_add [of "2 :: real" 1024 1] p by simp
  have f: "floor_log2 b = 1024"
  proof (rule floor_log2_unique)
    show "2 powi 1024 \<le> b" unfolding p by simp
    show "b < 2 powi (1024 + 1)" unfolding q using pos by simp
  qed
  have e: "b = of_int 1 * 2 powi 1024" unfolding p by simp
  have k: "max (floor_log2 b) (- 1022) - 52 \<le> 1024" unfolding f by simp
  from pos e k have "round_pos b = b" by (rule round_pos_representable)
  with pos have "round_finite b = b" by (simp add: round_finite_def)
  moreover have "overflow_threshold \<le> b" by (simp add: overflow_threshold_def b_def)
  ultimately have "float_of_real b = PInf" by (simp add: float_of_real_def)
  moreover have "real_of_int (2 ^ 1024) = b" by (simp add: b_def)
  ultimately have "float_of_int (2 ^ 1024) = Inl (OverflowError ''int too large to convert to float'')"
    by (simp only: float_of_int_def pyfloat.case)
  then show ?thesis by (simp only: extract_numeric_value.simps)
qed

lemma age_rule_critical: "is_critical (default_rules @ customs) ''Age Eligibility''"
  by (simp add: is_critical_def default_rules_def)

text \<open>
  Claim C9. For the default rules, followed by any custom rules: when the entities hold no
  \<open>age\<close>, or an age whose text has no digit, the numeric age is 0, the \<open>Age Eligibility\<close> rule
  (\<open>age_limit\<close>, minimum age 18) is violated, \<open>validate_claim\<close> returns \<open>is_valid = False\<close>, and
  the decision made from that validation result is not \<open>approved\<close>.
\<close>
theorem missing_age_is_never_approved:
  assumes "\<forall>v. map_of ents ''age'' = Some v \<longrightarrow> \<not> list_ex isdigit (py_str v)"
  shows "extract_numeric_value (get_or ents ''age'' (PStr ''0'')) = Inr (Fin 0)
         \<and> ''Age Eligibility'' \<in> set (violated_rules (validate_claim (default_rules @ customs) ents clauses))
         \<and> is_valid (validate_claim (default_rules @ customs) ents clauses) = False
         \<and> decision (fst (make_decision F h ents clauses
                (validate_claim (default_rules @ customs) ents clauses) qt)) \<noteq> ''approved''"
proof -
  let ?age_rule = "\<lparr>rule_id = ''age_limit'', name = ''Age Eligibility'',
       conditions = [MinAge 18, MaxAge 80], action = ''check_age_eligibility'', priority = 1\<rparr>"
  have zero: "extract_numeric_value (get_or ents ''age'' (PStr ''0'')) = Inr (Fin 0)"
    using assms by (rule numeric_age_defaults_to_zero)
  have mem: "?age_rule \<in> set (default_rules @ customs)"
    by (simp add: default_rules_def)
  have viol: "\<not> fst (evaluate ?age_rule ents)"
    using zero by (simp add: evaluate_def fge_def)
  have listed: "''Age Eligibility'' \<in> set (violated_rules (validate_claim (default_rules @ customs) ents clauses))"
    using mem viol by (force simp: violated_rules_validate_claim)
  have invalid: "\<not> is_valid (validate_claim (default_rules @ customs) ents clauses)"
    unfolding is_valid_validate_claim using mem viol age_rule_critical [of customs] by force
  from zero listed invalid decision_not_approved_when_invalid [OF invalid] show ?thesis
    by simp
qed

text \<open>
  The query \<open>knee surgery in Pune\<close> names no age: validation by the default rules is invalid
  and the decision is not \<open>approved\<close>, although the clause supports coverage.
\<close>
theorem missing_age_is_never_approved_witness:
  "map_of [(''procedure'', PList [''knee'', ''surgery'']), (''location'', PStr ''Pune'')] ''age'' = None
   \<and> is_valid (validate_claim (default_rules @ [])
        [(''procedure'', PList [''knee'', ''surgery'']), (''location'', PStr ''Pune'')]
        [\<lparr>document_name = ''policy.txt'', clause_id = ''policy.txt_p0_c0'',
          clause_text = ''Knee surgery in Pune is covered'', relevance_score = 0.9,
          page_number = None\<rparr>]) = False
   \<and> decision (fst (make_decision plain_format []
        [(''procedure'', PList [''knee'', ''surgery'']), (''location'', PStr ''Pune'')]
        [\<lparr>document_name = ''policy.txt'', clause_id = ''policy.txt_p0_c0'',
          clause_text = ''Knee surgery in Pune is covered'', relevance_score = 0.9,
          page_number = None\<rparr>]
        (validate_claim (default_rules @ [])
           [(''procedure'', PList [''knee'', ''surgery'']), (''location'', PStr ''Pune'')]
           [\<lparr>document_name = ''policy.txt'', clause_id = ''policy.txt_p0_c0'',
             clause_text = ''Knee surgery in Pune is covered'', relevance_score = 0.9,
             page_number = None\<rparr>])
        ''coverage'')) \<noteq> ''approved''"
  using missing_age_is_never_approved [of
      "[(''procedure'', PList [''knee'', ''surgery'']), (''location'', PStr ''Pune'')]"
      "[]"
      "[\<lparr>document_name = ''policy.txt'', clause_id = ''policy.txt_p0_c0'',
          clause_text = ''Knee surgery in Pune is covered'', relevance_score = 0.9,
          page_number = None\<rparr>]"
      plain_format "[]" "''coverage''"]
  by simp

section \<open>Properties of the mapping agent\<close>

lemma find_by_distinct_key:
  "distinct (map f xs) \<Longrightarrow> x \<in> set xs \<Longrightarrow> find (\<lambda>y. f y = f x) xs = Some x"
  by (induction xs) force+

lemma alist_update_fresh: "k \<notin> fst ` set al \<Longrightarrow> AList.update k v al = al @ [(k, v)]"
  by (induction al) auto

lemma map_of_foldl_update:
  "map_of (foldl (\<lambda>m l. AList.update (f l) l m) m0 ls) k =
     (case find (\<lambda>l. f l = k) (rev ls) of None \<Rightarrow> map_of m0 k | Some l \<Rightarrow> Some l)"
proof (induction ls arbitrary: m0 rule: rev_induct)
  case Nil
  then show ?case by simp
next
  case (snoc x xs)
  then show ?case by (simp add: AList.update_conv')
qed

lemma keys_add_clause: "fst ` set (clause_index (add_clause ix c)) = insert (clause_id c) (fst ` set (clause_index ix))"
  by (simp add: add_clause_def Let_def AList.dom_update)

lemma keys_foldl_add_clause:
  "fst ` set (clause_index (foldl add_clause ix cs)) = fst ` set (clause_index ix) \<union> clause_id ` set cs"
  by (induction cs arbitrary: ix) (auto simp: keys_add_clause)

lemma decision_index_add_clause: "decision_index (add_clause ix c) = decision_index ix"
  by (simp add: add_clause_def Let_def)

lemma decision_index_foldl_add_clause: "decision_index (foldl add_clause ix cs) = decision_index ix"
  by (induction cs arbitrary: ix) (auto simp: decision_index_add_clause)

lemma create_traceability_link_sel:
  "link_id (create_traceability_link lid did c d) = lid"
  "decision_id (create_traceability_link lid did c d) = did"
  "source_clause_id (create_traceability_link lid did c d) = clause_id c"
  by (simp_all add: create_traceability_link_def split: prod.splits)

lemma map_link_id_new_links:
  "map link_id (new_links uuid d clauses) = map (\<lambda>i. uuid (2 + i)) [0..<length clauses]"
  by (auto simp: new_links_def enumerate_eq_zip create_traceability_link_sel intro!: nth_equalityI)

lemma new_links_sel:
  assumes "l \<in> set (new_links uuid d clauses)"
  shows "decision_id l = uuid 1" "source_clause_id l \<in> clause_id ` set clauses"
  using assms by (auto simp: new_links_def enumerate_eq_zip create_traceability_link_sel dest: set_zip_rightD)

lemma create_decision_trace_state:
  "snd (create_decision_trace agent uuid q ents d clauses path) =
     \<lparr>document_index = link_decision_to_clauses (foldl add_clause (document_index agent) clauses)
         (uuid 1) (map clause_id clauses),
      decision_traces = AList.update (uuid 0)
         \<lparr>trace_id = uuid 0, query = q, trace_decision = decision d, trace_entities = ents,
          trace_confidence_score = confidence_score d, source_links = new_links uuid d clauses,
          decision_path = path, meta_decision_id = uuid 1, meta_amount = amount d,
          meta_risk_assessment = risk_assessment d\<rparr> (decision_traces agent),
      traceability_links = foldl (\<lambda>m l. AList.update (link_id l) l m) (traceability_links agent)
         (new_links uuid d clauses),
      audit_log = log_audit_event (audit_log agent)
         \<lparr>event_type = ''decision_trace_created'', event_trace_id = uuid 0,
          event_decision_id = uuid 1, event_decision = decision d,
          event_source_clauses_count = length clauses\<rparr>\<rparr>"
  by (simp add: create_decision_trace_def Let_def new_links_def)

lemma fresh_idsD:
  assumes "fresh_ids agent uuid n"
  shows "uuid 0 \<notin> fst ` set (decision_traces agent)"
    and "uuid 1 \<notin> (\<lambda>kt. meta_decision_id (snd kt)) ` set (decision_traces agent)"
    and "\<And>i. i < n \<Longrightarrow> uuid (2 + i) \<notin> fst ` set (traceability_links agent)"
    and "distinct (map (\<lambda>i. uuid (2 + i)) [0..<n])"
proof -
  from assms have d: "distinct (map uuid [0..<2 + n])"
    and u: "\<And>i. i < 2 + n \<Longrightarrow> uuid i \<notin> set (used_ids agent)"
    by (auto simp: fresh_ids_def list_all_iff simp del: upt_Suc)
  from u [of 0] show "uuid 0 \<notin> fst ` set (decision_traces agent)"
    by (auto simp: used_ids_def)
  from u [of 1] show "uuid 1 \<notin> (\<lambda>kt. meta_decision_id (snd kt)) ` set (decision_traces agent)"
    by (auto simp: used_ids_def)
  show "\<And>i. i < n \<Longrightarrow> uuid (2 + i) \<notin> fst ` set (traceability_links agent)"
    using u by (auto simp: used_ids_def)
  have inj: "inj_on uuid {0..<2 + n}"
    using d by (simp add: distinct_map del: upt_Suc)
  have "inj_on (\<lambda>i. uuid (2 + i)) {0..<n}"
  proof (rule inj_onI)
    fix x y assume "x \<in> {0..<n}" "y \<in> {0..<n}" "uuid (2 + x) = uuid (2 + y)"
    with inj_onD [OF inj, of "2 + x" "2 + y"] show "x = y" by simp
  qed
  then show "distinct (map (\<lambda>i. uuid (2 + i)) [0..<n])"
    by (simp add: distinct_map)
qed

lemma trace_inv_create:
  assumes inv: "trace_inv agent" and fresh: "fresh_ids agent uuid (length clauses)"
  shows "trace_inv (snd (create_decision_trace agent uuid q ents d clauses path))"
proof -
  let ?n = "length clauses"
  let ?ls = "new_links uuid d clauses"
  let ?links' = "foldl (\<lambda>m l. AList.update (link_id l) l m) (traceability_links agent) ?ls"
  let ?ix' = "link_decision_to_clauses (foldl add_clause (document_index agent) clauses)
         (uuid 1) (map clause_id clauses)"
  let ?T = "\<lparr>trace_id = uuid 0, query = q, trace_decision = decision d, trace_entities = ents,
          trace_confidence_score = confidence_score d, source_links = ?ls,
          decision_path = path, meta_decision_id = uuid 1, meta_amount = amount d,
          meta_risk_assessment = risk_assessment d\<rparr>"
  note f = fresh_idsD [OF fresh]
  have traces': "AList.update (uuid 0) ?T (decision_traces agent) = decision_traces agent @ [(uuid 0, ?T)]"
    using f(1) by (rule alist_update_fresh)
  have ids: "map link_id ?ls = map (\<lambda>i. uuid (2 + i)) [0..<?n]"
    by (rule map_link_id_new_links)
  have dist_new: "distinct (map link_id ?ls)"
    using f(4) ids by simp
  have new_fresh: "link_id l \<notin> fst ` set (traceability_links agent)" if "l \<in> set ?ls" for l
  proof -
    from that have "link_id l \<in> set (map link_id ?ls)" by simp
    then obtain i where "i < ?n" "link_id l = uuid (2 + i)"
      unfolding ids by auto
    with f(3) show ?thesis by simp
  qed
  have keep: "map_of ?links' (link_id l) = Some l"
    if "map_of (traceability_links agent) (link_id l) = Some l" for l
  proof -
    from that have "link_id l \<in> fst ` set (traceability_links agent)"
      by (metis domI dom_map_of_conv_image_fst)
    with new_fresh have "\<And>l'. l' \<in> set ?ls \<Longrightarrow> link_id l' \<noteq> link_id l"
      by metis
    then have "find (\<lambda>l'. link_id l' = link_id l) (rev ?ls) = None"
      by (auto simp: find_None_iff)
    with that show ?thesis by (simp add: map_of_foldl_update)
  qed
  have stored: "map_of ?links' (link_id l) = Some l" if "l \<in> set ?ls" for l
  proof -
    have "find (\<lambda>l'. link_id l' = link_id l) (rev ?ls) = Some l"
      using dist_new that by (intro find_by_distinct_key) (simp_all add: rev_map [symmetric])
    then show ?thesis by (simp add: map_of_foldl_update)
  qed
  have keys': "fst ` set (clause_index ?ix') =
      fst ` set (clause_index (document_index agent)) \<union> clause_id ` set clauses"
    by (simp add: link_decision_to_clauses_def keys_foldl_add_clause)
  have by_dec_old: "get_clauses_by_decision ?ix' k = get_clauses_by_decision (document_index agent) k"
    if "k \<noteq> uuid 1" for k
    using that by (simp add: get_clauses_by_decision_def link_decision_to_clauses_def
        AList.update_conv' decision_index_foldl_add_clause)
  have by_dec_new: "get_clauses_by_decision ?ix' (uuid 1) = map clause_id clauses"
    by (simp add: get_clauses_by_decision_def link_decision_to_clauses_def AList.update_conv')
  have old: "map_of ?links' (link_id l) = Some l
             \<and> decision_id l = meta_decision_id (snd kt)
             \<and> source_clause_id l \<in> fst ` set (clause_index ?ix')
             \<and> source_clause_id l \<in> set (get_clauses_by_decision ?ix' (meta_decision_id (snd kt)))"
    if "kt \<in> set (decision_traces agent)" "l \<in> set (source_links (snd kt))" for kt l
  proof -
    from inv that have *: "map_of (traceability_links agent) (link_id l) = Some l"
      "decision_id l = meta_decision_id (snd kt)"
      "source_clause_id l \<in> fst ` set (clause_index (document_index agent))"
      "source_clause_id l \<in> set (get_clauses_by_decision (document_index agent) (meta_decision_id (snd kt)))"
      by (auto simp: trace_inv_def list_all_iff)
    from that(1) f(2) have "meta_decision_id (snd kt) \<noteq> uuid 1" by (metis image_eqI)
    with * keep keys' by_dec_old show ?thesis by auto
  qed
  have new: "map_of ?links' (link_id l) = Some l
             \<and> decision_id l = uuid 1
             \<and> source_clause_id l \<in> fst ` set (clause_index ?ix')
             \<and> source_clause_id l \<in> set (get_clauses_by_decision ?ix' (uuid 1))"
    if "l \<in> set ?ls" for l
    using that stored new_links_sel [OF that] keys' by_dec_new by auto
  have dist: "distinct (map (\<lambda>kt. meta_decision_id (snd kt)) (decision_traces agent @ [(uuid 0, ?T)]))"
    using inv f(2) by (auto simp: trace_inv_def)
  show ?thesis
    unfolding create_decision_trace_state trace_inv_def traces'
    using dist old new by (auto simp: list_all_iff)
qed


lemma same_upto_links_refl: "same_upto_links s s"
  by (simp add: same_upto_links_def)

lemma links_of_same: "same_upto_links a s \<Longrightarrow> links_of a cid did = links_of s cid did"
  by (simp add: links_of_def same_upto_links_def)

lemma entry_links_update_cong:
  "e'\<lparr>entry_traceability_links := None\<rparr> = e\<lparr>entry_traceability_links := None\<rparr> \<Longrightarrow>
   e'\<lparr>entry_traceability_links := X\<rparr> = e\<lparr>entry_traceability_links := X\<rparr>"
  by (cases e, cases e') simp

lemma source_clause_step_same:
  assumes "same_upto_links a s"
  shows "same_upto_links (snd (source_clause_step did (acc, a) cid)) s"
proof (cases "map_of (clause_index (document_index a)) cid")
  case None
  with assms show ?thesis by (simp add: source_clause_step_def)
next
  case (Some e0)
  let ?e1 = "e0\<lparr>entry_traceability_links := Some (links_of a cid did)\<rparr>"
  let ?a' = "a\<lparr>document_index := (document_index a)\<lparr>clause_index :=
                AList.update cid ?e1 (clause_index (document_index a))\<rparr>\<rparr>"
  from Some have k: "cid \<in> fst ` set (clause_index (document_index a))"
    by (metis domI dom_map_of_conv_image_fst)
  have st: "snd (source_clause_step did (acc, a) cid) = ?a'"
    using Some by (simp add: source_clause_step_def Let_def)
  have keys: "fst ` set (clause_index (document_index ?a')) = fst ` set (clause_index (document_index s))"
    using assms k by (simp add: same_upto_links_def AList.dom_update insert_absorb)
  have ent: "\<exists>e'. map_of (clause_index (document_index ?a')) c = Some e'
                 \<and> e'\<lparr>entry_traceability_links := None\<rparr> = e\<lparr>entry_traceability_links := None\<rparr>"
    if "map_of (clause_index (document_index s)) c = Some e" for c e
  proof -
    from assms that obtain e' where
      e': "map_of (clause_index (document_index a)) c = Some e'"
        "e'\<lparr>entry_traceability_links := None\<rparr> = e\<lparr>entry_traceability_links := None\<rparr>"
      unfolding same_upto_links_def by blast
    show ?thesis
    proof (cases "c = cid")
      case True
      with e' Some have "e0\<lparr>entry_traceability_links := None\<rparr> = e\<lparr>entry_traceability_links := None\<rparr>"
        by simp
      then have "?e1\<lparr>entry_traceability_links := None\<rparr> = e\<lparr>entry_traceability_links := None\<rparr>"
        by simp
      with True show ?thesis by (simp add: AList.update_conv')
    next
      case False
      with e' show ?thesis by (simp add: AList.update_conv')
    qed
  qed
  from assms have "decision_traces ?a' = decision_traces s"
    "traceability_links ?a' = traceability_links s"
    "decision_index (document_index ?a') = decision_index (document_index s)"
    by (simp_all add: same_upto_links_def)
  with keys ent show ?thesis
    unfolding st same_upto_links_def by blast
qed

lemma source_clause_step_acc:
  "set acc \<subseteq> set (fst (source_clause_step did (acc, a) cid))"
  by (auto simp: source_clause_step_def Let_def split: option.splits)

lemma foldl_source_clause_step_acc:
  "set acc \<subseteq> set (fst (foldl (source_clause_step did) (acc, a) cs))"
proof (induction cs arbitrary: acc a)
  case Nil
  then show ?case by simp
next
  case (Cons c cs)
  obtain acc' a' where st: "source_clause_step did (acc, a) c = (acc', a')"
    by (cases "source_clause_step did (acc, a) c")
  with source_clause_step_acc [of acc did a c] have "set acc \<subseteq> set acc'" by simp
  with Cons.IH [of acc' a'] st show ?case by auto
qed

lemma foldl_source_clause_step_same:
  "same_upto_links a s \<Longrightarrow> same_upto_links (snd (foldl (source_clause_step did) (acc, a) cs)) s"
proof (induction cs arbitrary: acc a)
  case Nil
  then show ?case by simp
next
  case (Cons c cs)
  obtain acc' a' where st: "source_clause_step did (acc, a) c = (acc', a')"
    by (cases "source_clause_step did (acc, a) c")
  with source_clause_step_same [OF Cons.prems, of did acc c] have "same_upto_links a' s" by simp
  with Cons.IH [of a' acc'] st show ?case by simp
qed

lemma foldl_source_clause_step_returns:
  assumes "same_upto_links a s" "cid \<in> set cs"
    and "map_of (clause_index (document_index s)) cid = Some e"
  shows "e\<lparr>entry_traceability_links := Some (links_of s cid did)\<rparr>
           \<in> set (fst (foldl (source_clause_step did) (acc, a) cs))"
  using assms(1,2)
proof (induction cs arbitrary: acc a)
  case Nil
  then show ?case by simp
next
  case (Cons c cs)
  obtain acc' a' where st: "source_clause_step did (acc, a) c = (acc', a')"
    by (cases "source_clause_step did (acc, a) c")
  from source_clause_step_same [OF Cons.prems(1), of did acc c] st
  have same': "same_upto_links a' s" by simp
  show ?case
  proof (cases "cid = c")
    case True
    from Cons.prems(1) assms(3) obtain e' where
      e': "map_of (clause_index (document_index a)) cid = Some e'"
        "e'\<lparr>entry_traceability_links := None\<rparr> = e\<lparr>entry_traceability_links := None\<rparr>"
      unfolding same_upto_links_def by blast
    from e'(2) have "e'\<lparr>entry_traceability_links := Some (links_of s cid did)\<rparr>
        = e\<lparr>entry_traceability_links := Some (links_of s cid did)\<rparr>"
      by (rule entry_links_update_cong)
    with e'(1) st True links_of_same [OF Cons.prems(1), of cid did]
    have "e\<lparr>entry_traceability_links := Some (links_of s cid did)\<rparr> \<in> set acc'"
      by (auto simp: source_clause_step_def Let_def)
    with foldl_source_clause_step_acc [of acc' did a' cs] st show ?thesis by auto
  next
    case False
    with Cons.prems(2) have "cid \<in> set cs" by simp
    from Cons.IH [OF same' this, of acc'] st show ?thesis by simp
  qed
qed

lemma trace_inv_lookup:
  assumes "trace_inv agent"
  shows "trace_inv (snd (get_source_clauses_for_decision agent did))"
proof -
  have "same_upto_links (snd (get_source_clauses_for_decision agent did)) agent"
    unfolding get_source_clauses_for_decision_def
    by (rule foldl_source_clause_step_same) (rule same_upto_links_refl)
  with assms show ?thesis
    by (simp add: trace_inv_def same_upto_links_def get_clauses_by_decision_def)
qed

lemma trace_inv_new: "trace_inv new_mapping_agent"
  by (simp add: trace_inv_def new_mapping_agent_def)

lemma reachable_trace_inv: "reachable agent \<Longrightarrow> trace_inv agent"
  by (induction rule: reachable.induct)
     (simp_all add: trace_inv_new trace_inv_create trace_inv_lookup)

text \<open>
  Claim C8. In every state the agent reaches (by \<open>create_decision_trace\<close> with fresh
  identifiers and by \<open>get_source_clauses_for_decision\<close>), for every recorded trace and every
  link of it: \<open>get_source_clauses_for_decision\<close> of the link's decision returns the dictionary
  of the link's clause, carrying the link; and \<open>get_decisions_using_clause\<close> of the link's
  clause returns the entry of that trace with the link's relationship type and strength.
\<close>
theorem traceability_round_trip:
  assumes "reachable agent"
    and "(tid, t) \<in> set (decision_traces agent)"
    and "l \<in> set (source_links t)"
  shows "(\<exists>e. map_of (clause_index (document_index agent)) (source_clause_id l) = Some e
            \<and> e\<lparr>entry_traceability_links :=
                  Some (links_of agent (source_clause_id l) (decision_id l))\<rparr>
                \<in> set (fst (get_source_clauses_for_decision agent (decision_id l)))
            \<and> (relationship_type l, strength l, explanation l)
                \<in> set (links_of agent (source_clause_id l) (decision_id l)))
       \<and> \<lparr>dec_trace_id = trace_id t, dec_decision = trace_decision t, dec_query = query t,
           dec_confidence_score = trace_confidence_score t,
           dec_relationship_type = relationship_type l,
           dec_relationship_strength = strength l\<rparr>
            \<in> set (get_decisions_using_clause agent (source_clause_id l))"
proof -
  from assms(1) have inv: "trace_inv agent" by (rule reachable_trace_inv)
  with assms(2,3) have
    stored: "map_of (traceability_links agent) (link_id l) = Some l" and
    did: "decision_id l = meta_decision_id t" and
    key: "source_clause_id l \<in> fst ` set (clause_index (document_index agent))" and
    listed: "source_clause_id l \<in> set (get_clauses_by_decision (document_index agent) (meta_decision_id t))"
    by (auto simp: trace_inv_def list_all_iff)
  from key obtain e where e: "map_of (clause_index (document_index agent)) (source_clause_id l) = Some e"
    by (metis domD dom_map_of_conv_image_fst)
  from stored have mem: "l \<in> set (map snd (traceability_links agent))"
    by (metis map_of_SomeD image_eqI list.set_map snd_conv)
  have ret: "e\<lparr>entry_traceability_links := Some (links_of agent (source_clause_id l) (decision_id l))\<rparr>
       \<in> set (fst (get_source_clauses_for_decision agent (decision_id l)))"
    unfolding get_source_clauses_for_decision_def
    using same_upto_links_refl listed e unfolding did
    by (rule foldl_source_clause_step_returns)
  have lk: "(relationship_type l, strength l, explanation l)
      \<in> set (links_of agent (source_clause_id l) (decision_id l))"
    using mem by (force simp: links_of_def)
  from inv have "distinct (map meta_decision_id (map snd (decision_traces agent)))"
    by (simp add: trace_inv_def comp_def)
  moreover from assms(2) have "t \<in> set (map snd (decision_traces agent))" by force
  ultimately have "find (\<lambda>t'. meta_decision_id t' = meta_decision_id t) (map snd (decision_traces agent)) = Some t"
    by (rule find_by_distinct_key)
  with mem did have rev_dir: "\<lparr>dec_trace_id = trace_id t, dec_decision = trace_decision t, dec_query = query t,
           dec_confidence_score = trace_confidence_score t,
           dec_relationship_type = relationship_type l,
           dec_relationship_strength = strength l\<rparr>
            \<in> set (get_decisions_using_clause agent (source_clause_id l))"
    by (force simp: get_decisions_using_clause_def)
  from e ret lk rev_dir show ?thesis by blast
qed

text \<open>The example agent: its one link is found from the decision and from the clause.\<close>
theorem traceability_round_trip_witness:
  "reachable example_agent
   \<and> (''id-0'', example_trace) \<in> set (decision_traces example_agent)
   \<and> example_link \<in> set (source_links example_trace)
   \<and> (\<exists>e. map_of (clause_index (document_index example_agent)) ''policy.txt_p0_c0'' = Some e
          \<and> e\<lparr>entry_traceability_links :=
                Some (links_of example_agent ''policy.txt_p0_c0'' ''id-1'')\<rparr>
              \<in> set (fst (get_source_clauses_for_decision example_agent ''id-1''))
          \<and> (''supports'', 1, ''Clause contains 1 supportive terms for approved decision'')
              \<in> set (links_of example_agent ''policy.txt_p0_c0'' ''id-1''))
   \<and> \<lparr>dec_trace_id = ''id-0'', dec_decision = ''approved'', dec_query = ''is knee surgery covered'',
       dec_confidence_score = 0.9, dec_relationship_type = ''supports'',
       dec_relationship_strength = 1\<rparr>
        \<in> set (get_decisions_using_clause example_agent ''policy.txt_p0_c0'')"
proof -
  have fresh: "fresh_ids new_mapping_agent example_uuid (length [example_clause])"
    by code_simp
  have r: "reachable example_agent"
    unfolding example_agent_def using reachable.init fresh by (rule reachable.trace)
  have m: "(''id-0'', example_trace) \<in> set (decision_traces example_agent)"
    by code_simp
  have l: "example_link \<in> set (source_links example_trace)"
    by (simp add: example_trace_def)
  from traceability_round_trip [OF r m l] r m l show ?thesis
    by (simp add: example_link_def example_trace_def)
qed

section \<open>Properties of the retrieval agent\<close>

subsection \<open>The hybrid search\<close>

lemma those_eq_Some_map: "those xs = Some ys \<Longrightarrow> xs = map Some ys"
  by (induction xs arbitrary: ys) (auto split: option.splits)

lemma set_py_take_subset: "set (py_take n xs) \<subseteq> set xs"
  by (auto simp: py_take_def dest: in_set_takeD)

lemma sorted_wrt_py_take: "sorted_wrt R xs \<Longrightarrow> sorted_wrt R (py_take n xs)"
  by (simp add: py_take_def)

lemma length_py_take: "0 \<le> n \<Longrightarrow> int (length (py_take n xs)) \<le> n"
  by (simp add: py_take_def)

lemma similarity_search_cases:
  obtains "similarity_search P store q cfg = []"
  | scores where
      "those (map (hybrid_score P store cfg (encode P q) (generate_sparse_embedding q))
                (map fst (documents store))) = Some scores"
      "similarity_search P store q cfg =
         py_take (max_results cfg)
           (sort_desc snd (filter (\<lambda>r. fge (snd r) (similarity_threshold cfg)) scores))"
  by (cases "those (map (hybrid_score P store cfg (encode P q) (generate_sparse_embedding q))
                (map fst (documents store)))")
     (simp_all add: similarity_search_def Let_def split_def)

lemma hybrid_score_double: "hybrid_score P store cfg qd qs doc_id = Some r \<Longrightarrow> is_double (snd r)"
  by (auto simp: hybrid_score_def Let_def is_double_fadd split: option.splits sum.splits)

lemma similarity_search_member:
  assumes "r \<in> set (similarity_search P store q cfg)"
  shows "fge (snd r) (similarity_threshold cfg) \<and> is_double (snd r)"
proof (rule similarity_search_cases [of P store q cfg])
  assume "similarity_search P store q cfg = []"
  with assms show ?thesis by simp
next
  fix scores
  assume th: "those (map (hybrid_score P store cfg (encode P q) (generate_sparse_embedding q))
                (map fst (documents store))) = Some scores"
    and eq: "similarity_search P store q cfg =
         py_take (max_results cfg)
           (sort_desc snd (filter (\<lambda>r. fge (snd r) (similarity_threshold cfg)) scores))"
  from assms eq set_py_take_subset
  have "r \<in> set (sort_desc snd (filter (\<lambda>r. fge (snd r) (similarity_threshold cfg)) scores))"
    by fastforce
  then have r: "r \<in> set scores" "fge (snd r) (similarity_threshold cfg)"
    by (simp_all add: set_sort_desc)
  from r(1) have "Some r \<in> set (map Some scores)" by simp
  with those_eq_Some_map [OF th] obtain doc_id where
    "hybrid_score P store cfg (encode P q) (generate_sparse_embedding q) doc_id = Some r"
    by (metis (no_types, lifting) imageE list.set_map)
  then have "is_double (snd r)" by (rule hybrid_score_double)
  with r(2) show ?thesis by simp
qed

lemma similarity_search_sorted:
  "sorted_wrt (\<lambda>a b. fge (snd a) (snd b)) (similarity_search P store q cfg)"
proof (rule similarity_search_cases [of P store q cfg])
  assume "similarity_search P store q cfg = []"
  then show ?thesis by simp
next
  fix scores
  assume eq: "similarity_search P store q cfg =
         py_take (max_results cfg)
           (sort_desc snd (filter (\<lambda>r. fge (snd r) (similarity_threshold cfg)) scores))"
  have "\<forall>r \<in> set (filter (\<lambda>r. fge (snd r) (similarity_threshold cfg)) scores). \<not> is_nan (snd r)"
    using fle_not_nan by (auto simp: fge_def)
  then have "sorted_wrt (\<lambda>a b. fge (snd a) (snd b))
      (sort_desc snd (filter (\<lambda>r. fge (snd r) (similarity_threshold cfg)) scores))"
    by (rule sorted_sort_desc)
  then show ?thesis unfolding eq by (rule sorted_wrt_py_take)
qed

lemma similarity_search_length:
  "0 \<le> max_results cfg \<Longrightarrow> int (length (similarity_search P store q cfg)) \<le> max_results cfg"
  by (rule similarity_search_cases [of P store q cfg]) (simp_all add: length_py_take)

lemma to_source_clause_scores:
  "those (map (to_source_clause store) rs) = Some cs \<Longrightarrow> map relevance_score cs = map snd rs"
proof (induction rs arbitrary: cs)
  case Nil
  then show ?case by simp
next
  case (Cons r rs)
  then show ?case
    by (auto simp: to_source_clause_def split: option.splits)
qed

lemma entity_weight_finite: "\<exists>w\<ge>0. entity_weight k = Fin w"
proof -
  have "\<exists>w\<ge>0. float_of_real 1.5 = Fin w" "\<exists>w\<ge>0. float_of_real 1.2 = Fin w"
    "\<exists>w\<ge>0. float_of_real 1.3 = Fin w" "\<exists>w\<ge>0. float_of_real 1.4 = Fin w"
    by (rule float_of_real_small; simp)+
  then show ?thesis by (auto simp: entity_weight_def)
qed

lemma bonus_step_nonneg:
  assumes "fle (Fin 0) b"
  shows "fle (Fin 0) (fadd b (fmul (entity_weight k) (float_of_real 0.1)))"
proof -
  obtain w where w: "0 \<le> w" "entity_weight k = Fin w" using entity_weight_finite by blast
  obtain c where c: "0 \<le> c" "float_of_real 0.1 = Fin c"
    using float_of_real_small [of "0.1"] by auto
  from w c have "fle (Fin 0) (fmul (entity_weight k) (float_of_real 0.1))"
    by (simp add: float_of_real_nonneg)
  with assms show ?thesis by (rule fadd_nonneg)
qed

lemma bonus_foldl_nonneg:
  "fle (Fin 0) b \<Longrightarrow>
   fle (Fin 0) (foldl (\<lambda>bonus (entity_type, v).
              if is_str v \<and> py_contains (py_lower (py_str v)) t
              then fadd bonus (fmul (entity_weight entity_type) (float_of_real 0.1)) else bonus)
       b ents)"
proof (induction ents arbitrary: b)
  case Nil
  then show ?case by simp
next
  case (Cons e ents)
  obtain k v where e: "e = (k, v)" by (cases e)
  show ?case unfolding e using Cons.IH Cons.prems by (simp add: bonus_step_nonneg)
qed

lemma bonus_score_nonneg: "fle (Fin 0) (bonus_score ents t)"
  unfolding bonus_score_def by (rule bonus_foldl_nonneg) simp

lemma capped_score:
  assumes "is_double s" "fge s t" "fle (Fin 0) b"
  shows "\<not> is_nan (py_min (Fin 1) (fadd s b))
    \<and> fle (py_min (Fin 1) (fadd s b)) (Fin 1)
    \<and> (fge (py_min (Fin 1) (fadd s b)) t \<or> py_min (Fin 1) (fadd s b) = Fin 1)"
proof -
  have a: "\<not> is_nan (py_min (Fin 1) (fadd s b))" by (rule py_min_not_nan) simp
  have b: "fle (py_min (Fin 1) (fadd s b)) (Fin 1)" by (rule py_min_le) simp
  from py_min_cases [of "Fin 1" "fadd s b"]
  have "fge (py_min (Fin 1) (fadd s b)) t \<or> py_min (Fin 1) (fadd s b) = Fin 1"
  proof
    assume "py_min (Fin 1) (fadd s b) = Fin 1"
    then show ?thesis by simp
  next
    assume m: "py_min (Fin 1) (fadd s b) = fadd s b \<and> flt (fadd s b) (Fin 1)"
    then have "\<not> is_nan (fadd s b)" using fle_not_nan by (auto simp: flt_def)
    with assms(1,3) have "fle s (fadd s b)" by (rule fadd_increases)
    with assms(2) have "fle t (fadd s b)" unfolding fge_def by (rule fle_trans)
    with m show ?thesis by (simp add: fge_def)
  qed
  with a b show ?thesis by simp
qed

lemma rerank_member:
  "c \<in> set (rerank q cs parsed) \<Longrightarrow>
     \<exists>c0 \<in> set cs. \<exists>b. fle (Fin 0) b
        \<and> relevance_score c = py_min (Fin 1) (fadd (relevance_score c0) b)"
  using bonus_score_nonneg by (fastforce simp: rerank_def set_sort_desc)

lemma rerank_sorted:
  "sorted_wrt (\<lambda>a b. fge (relevance_score a) (relevance_score b)) (rerank q cs parsed)"
  unfolding rerank_def
  by (rule sorted_sort_desc) (auto simp: py_min_not_nan)

lemma rerank_length: "length (rerank q cs parsed) = length cs"
  by (simp add: rerank_def length_sort_desc)

lemma retrieve_cases:
  obtains "retrieve_relevant_documents P agent q = []"
  | clauses where
      "map relevance_score clauses =
         map snd (similarity_search P (vector_store agent)
                    (q @ '' '' @ structured_query (parse_query q)) (config agent))"
      "retrieve_relevant_documents P agent q =
         (if rerank_results (config agent) then rerank q clauses (parse_query q) else clauses)"
proof (cases "those (map (to_source_clause (vector_store agent))
                (similarity_search P (vector_store agent)
                    (q @ '' '' @ structured_query (parse_query q)) (config agent)))")
  case None
  then have "retrieve_relevant_documents P agent q = []"
    by (simp add: retrieve_relevant_documents_def Let_def)
  then show ?thesis by (rule that(1))
next
  case (Some clauses)
  then have "retrieve_relevant_documents P agent q =
         (if rerank_results (config agent) then rerank q clauses (parse_query q) else clauses)"
    by (simp add: retrieve_relevant_documents_def Let_def)
  with to_source_clause_scores [OF Some] show ?thesis by (rule that(2))
qed

lemma found_clause_score:
  assumes "map relevance_score clauses = map snd (similarity_search P store q cfg)"
    and "c \<in> set clauses"
  shows "fge (relevance_score c) (similarity_threshold cfg) \<and> is_double (relevance_score c)"
proof -
  from assms(2) have "relevance_score c \<in> set (map relevance_score clauses)" by simp
  with assms(1) obtain r where "r \<in> set (similarity_search P store q cfg)" "relevance_score c = snd r"
    by auto
  with similarity_search_member [of r P store q cfg] show ?thesis by simp
qed

lemma found_clauses_sorted:
  assumes "map relevance_score clauses = map snd (similarity_search P store q cfg)"
  shows "sorted_wrt (\<lambda>a b. fge (relevance_score a) (relevance_score b)) clauses"
proof -
  have "sorted_wrt fge (map snd (similarity_search P store q cfg))"
    using similarity_search_sorted [of P store q cfg] by (simp add: sorted_wrt_map)
  with assms have "sorted_wrt fge (map relevance_score clauses)" by simp
  then show ?thesis by (simp add: sorted_wrt_map)
qed

lemma reranked_clause_score:
  assumes "map relevance_score clauses = map snd (similarity_search P store q' cfg)"
    and "c \<in> set (rerank q clauses parsed)"
  shows "fle (relevance_score c) (Fin 1)
    \<and> (fge (relevance_score c) (similarity_threshold cfg) \<or> relevance_score c = Fin 1)"
proof -
  from rerank_member [OF assms(2)] obtain c0 b where
    c0: "c0 \<in> set clauses" and b: "fle (Fin 0) b"
    and e: "relevance_score c = py_min (Fin 1) (fadd (relevance_score c0) b)"
    by blast
  from found_clause_score [OF assms(1) c0]
  have "fge (relevance_score c0) (similarity_threshold cfg)" "is_double (relevance_score c0)"
    by simp_all
  from capped_score [OF this(2) this(1) b] e show ?thesis by simp
qed

text \<open>
  Claim C4, as the code has it. For every query, every agent (its store and configuration)
  and every embedding, numpy, \<open>pow\<close> and \<open>sum\<close>: the evidence list is in non-increasing order
  of the score, with and without the re-rank pass. Without the re-rank pass no score is below
  the threshold. With it every score is at most 1.0, and at least the threshold unless it is
  the cap 1.0 itself. When the threshold is not negative no score is negative, and when
  \<open>max_results\<close> is not negative the list has at most \<open>max_results\<close> items.
\<close>
theorem hybrid_search_sorted_thresholded_capped:
  "sorted_wrt (\<lambda>a b. fge (relevance_score a) (relevance_score b))
     (retrieve_relevant_documents P agent q)
   \<and> (if rerank_results (config agent)
      then list_all (\<lambda>c. fle (relevance_score c) (Fin 1)
                         \<and> (fge (relevance_score c) (similarity_threshold (config agent))
                              \<or> relevance_score c = Fin 1))
             (retrieve_relevant_documents P agent q)
      else list_all (\<lambda>c. fge (relevance_score c) (similarity_threshold (config agent)))
             (retrieve_relevant_documents P agent q))
   \<and> (fle (Fin 0) (similarity_threshold (config agent))
        \<longrightarrow> list_all (\<lambda>c. fle (Fin 0) (relevance_score c)) (retrieve_relevant_documents P agent q))
   \<and> (0 \<le> max_results (config agent)
        \<longrightarrow> int (length (retrieve_relevant_documents P agent q)) \<le> max_results (config agent))"
proof (rule retrieve_cases [of P agent q])
  assume "retrieve_relevant_documents P agent q = []"
  then show ?thesis by simp
next
  fix clauses
  let ?cfg = "config agent"
  let ?S = "similarity_search P (vector_store agent)
                    (q @ '' '' @ structured_query (parse_query q)) ?cfg"
  assume m: "map relevance_score clauses = map snd ?S"
    and r: "retrieve_relevant_documents P agent q =
         (if rerank_results ?cfg then rerank q clauses (parse_query q) else clauses)"
  from m have len: "length clauses = length ?S" by (rule map_eq_imp_length_eq)
  show ?thesis
  proof (cases "rerank_results ?cfg")
    case True
    with r have R: "retrieve_relevant_documents P agent q = rerank q clauses (parse_query q)" by simp
    have s: "sorted_wrt (\<lambda>a b. fge (relevance_score a) (relevance_score b))
        (rerank q clauses (parse_query q))" by (rule rerank_sorted)
    have c: "list_all (\<lambda>c. fle (relevance_score c) (Fin 1)
                         \<and> (fge (relevance_score c) (similarity_threshold ?cfg)
                              \<or> relevance_score c = Fin 1))
             (rerank q clauses (parse_query q))"
      unfolding list_all_iff using reranked_clause_score [OF m] by blast
    have z: "fle (Fin 0) (similarity_threshold ?cfg)
        \<longrightarrow> list_all (\<lambda>c. fle (Fin 0) (relevance_score c)) (rerank q clauses (parse_query q))"
    proof
      assume t: "fle (Fin 0) (similarity_threshold ?cfg)"
      show "list_all (\<lambda>c. fle (Fin 0) (relevance_score c)) (rerank q clauses (parse_query q))"
        unfolding list_all_iff
      proof
        fix c assume "c \<in> set (rerank q clauses (parse_query q))"
        from reranked_clause_score [OF m this]
        have "fge (relevance_score c) (similarity_threshold ?cfg) \<or> relevance_score c = Fin 1"
          by simp
        then show "fle (Fin 0) (relevance_score c)"
        proof
          assume "fge (relevance_score c) (similarity_threshold ?cfg)"
          with t show ?thesis unfolding fge_def by (rule fle_trans)
        next
          assume "relevance_score c = Fin 1"
          then show ?thesis by simp
        qed
      qed
    qed
    have l: "0 \<le> max_results ?cfg
        \<longrightarrow> int (length (rerank q clauses (parse_query q))) \<le> max_results ?cfg"
      using similarity_search_length [of ?cfg P "vector_store agent"] len
      by (simp add: rerank_length)
    from s c z l True show ?thesis unfolding R by simp
  next
    case False
    with r have R: "retrieve_relevant_documents P agent q = clauses" by simp
    have s: "sorted_wrt (\<lambda>a b. fge (relevance_score a) (relevance_score b)) clauses"
      using m by (rule found_clauses_sorted)
    have c: "list_all (\<lambda>c. fge (relevance_score c) (similarity_threshold ?cfg)) clauses"
      unfolding list_all_iff using found_clause_score [OF m] by blast
    have z: "fle (Fin 0) (similarity_threshold ?cfg)
        \<longrightarrow> list_all (\<lambda>c. fle (Fin 0) (relevance_score c)) clauses"
      using c unfolding list_all_iff fge_def by (blast intro: fle_trans)
    have l: "0 \<le> max_results ?cfg \<longrightarrow> int (length clauses) \<le> max_results ?cfg"
      using similarity_search_length [of ?cfg P "vector_store agent"] len by simp
    from s c z l False show ?thesis unfolding R by simp
  qed
qed

subsection \<open>The search on the example platform\<close>

lemma sqrt_double_one: "sqrt_double (Fin 1) = Fin 1"
  by (simp add: sqrt_double.simps float_eval isqrt.simps)

lemma sqrt_double_three_eighths:
  "sqrt_double (Fin (3 / 8)) = Fin (2757880273211543 / 4503599627370496)"
  by (simp add: sqrt_double.simps float_eval isqrt.simps)

lemma parse_and_and:
  "structured_query (parse_query ''and and'') = ''General inquiry''
   \<and> parsed_entities (parse_query ''and and'') = []"
  by code_simp

lemma inquiry_word_freq:
  "foldl count_word [] (py_split (py_lower ''and and General inquiry''))
     = [(''and'', 2), (''general'', 1), (''inquiry'', 1)]
   \<and> length (py_split (py_lower ''and and General inquiry'')) = 4
   \<and> foldl count_word [] (py_split (py_lower ''and and general inquiry''))
     = [(''and'', 2), (''general'', 1), (''inquiry'', 1)]
   \<and> length (py_split (py_lower ''and and general inquiry'')) = 4
   \<and> foldl count_word [] (py_split (py_lower ''refund'')) = [(''refund'', 1)]
   \<and> length (py_split (py_lower ''refund'')) = 1
   \<and> \<not> py_contains ''refund'' ''and and General inquiry''
   \<and> \<not> py_contains ''refund'' ''and and general inquiry''
   \<and> py_contains ''refund'' ''refund''"
  by code_simp

lemma inquiry_sparse:
  "generate_sparse_embedding ''and and General inquiry''
     = [(''and'', Fin (1 / 2)), (''general'', Fin (1 / 4)), (''inquiry'', Fin (1 / 4))]"
  "generate_sparse_embedding ''and and general inquiry''
     = [(''and'', Fin (1 / 2)), (''general'', Fin (1 / 4)), (''inquiry'', Fin (1 / 4))]"
  "generate_sparse_embedding ''refund'' = [(''refund'', Fin 1)]"
  by (simp_all add: generate_sparse_embedding_def inquiry_word_freq float_eval)

lemma inquiry_sparse_similarity:
  "sparse_similarity example_platform
     [(''and'', Fin (1 / 2)), (''general'', Fin (1 / 4)), (''inquiry'', Fin (1 / 4))]
     [(''and'', Fin (1 / 2)), (''general'', Fin (1 / 4)), (''inquiry'', Fin (1 / 4))]
   = Inr (Fin (4503599627370497 / 4503599627370496))"
  by (simp add: sparse_similarity_def sparse_norm_def example_platform_def py_truediv_def feq_def
      sqrt_double_three_eighths float_eval)

lemma refund_sparse_similarity:
  "sparse_similarity example_platform
     [(''and'', Fin (1 / 2)), (''general'', Fin (1 / 4)), (''inquiry'', Fin (1 / 4))]
     [(''refund'', Fin 1)]
   = Inr (Fin 0)"
  by (simp add: sparse_similarity_def sparse_norm_def example_platform_def py_truediv_def feq_def
      sqrt_double_three_eighths sqrt_double_one float_eval)

lemma example_cosine:
  "cosine_similarity example_platform [Fin 1] [Fin 1] = Fin 1"
  "cosine_similarity example_platform [Fin 1] [Fin (- 1)] = Fin (- 1)"
  by (simp_all add: cosine_similarity_def example_platform_def feq_def sqrt_double_one float_eval)


lemma example_encode:
  "encode example_platform ''and and General inquiry'' = [Fin 1]"
  "encode example_platform ''and and general inquiry'' = [Fin 1]"
  "encode example_platform ''refund'' = [Fin (- 1)]"
  by (simp_all add: example_platform_def inquiry_word_freq)

lemma indexed_inquiry:
  "vector_store (indexed_agent cfg [inquiry_chunk]) =
     \<lparr>dense_vectors = [(''policy.txt_p0_c0'', [Fin 1])],
      sparse_vectors = [(''policy.txt_p0_c0'',
         [(''and'', Fin (1 / 2)), (''general'', Fin (1 / 4)), (''inquiry'', Fin (1 / 4))])],
      documents = [(''policy.txt_p0_c0'',
         inquiry_chunk\<lparr>dense_embedding := Some [Fin 1],
           sparse_embedding := Some [(''and'', Fin (1 / 2)), (''general'', Fin (1 / 4)),
                                     (''inquiry'', Fin (1 / 4))]\<rparr>)]\<rparr>"
  "config (indexed_agent cfg [inquiry_chunk]) = cfg"
  by (simp_all add: indexed_agent_def add_documents_def add_document_def new_retrieval_agent_def
      new_vector_store_def Let_def inquiry_chunk_def example_encode inquiry_sparse)

lemma indexed_refund:
  "vector_store (indexed_agent cfg [refund_chunk]) =
     \<lparr>dense_vectors = [(''policy.txt_p0_c1'', [Fin (- 1)])],
      sparse_vectors = [(''policy.txt_p0_c1'', [(''refund'', Fin 1)])],
      documents = [(''policy.txt_p0_c1'',
         refund_chunk\<lparr>dense_embedding := Some [Fin (- 1)],
           sparse_embedding := Some [(''refund'', Fin 1)]\<rparr>)]\<rparr>"
  "config (indexed_agent cfg [refund_chunk]) = cfg"
  by (simp_all add: indexed_agent_def add_documents_def add_document_def new_retrieval_agent_def
      new_vector_store_def Let_def refund_chunk_def example_encode inquiry_sparse)

lemmas retrieve_eval = retrieve_relevant_documents_def parse_and_and similarity_search_def
  hybrid_score_def inquiry_sparse inquiry_sparse_similarity refund_sparse_similarity
  example_cosine example_encode to_source_clause_def py_take_def sort_desc_def fge_def
  rerank_def bonus_score_def py_min_def flt_def

lemma sparse_only_scores:
  "map relevance_score
     (retrieve_relevant_documents example_platform
        (indexed_agent sparse_only_config [inquiry_chunk]) ''and and'')
   = [Fin (4503599627370497 / 4503599627370496)]"
  by (simp add: indexed_inquiry retrieve_eval sparse_only_config_def float_eval)

lemma negative_max_results_scores:
  "retrieve_relevant_documents example_platform
        (indexed_agent (sparse_only_config\<lparr>max_results := - 1\<rparr>) [inquiry_chunk]) ''and and''
   = []"
  by (simp add: indexed_inquiry retrieve_eval sparse_only_config_def float_eval)

lemma high_threshold_scores:
  "map relevance_score
     (retrieve_relevant_documents example_platform
        (indexed_agent high_threshold_config [inquiry_chunk]) ''and and'')
   = [Fin 1]"
  by (simp add: indexed_inquiry retrieve_eval high_threshold_config_def float_eval)

lemma dense_only_scores:
  "map relevance_score
     (retrieve_relevant_documents example_platform
        (indexed_agent dense_only_config [refund_chunk]) ''and and'')
   = [Fin (- 1)]"
  by (simp add: indexed_refund retrieve_eval dense_only_config_def float_eval)

lemma default_scores:
  "map relevance_score
     (retrieve_relevant_documents example_platform
        (indexed_agent default_config [inquiry_chunk]) ''and and'')
   = [Fin 1]"
  by (simp add: indexed_inquiry retrieve_eval default_config_def float_eval)

lemma unnormalised_search:
  "similarity_search example_platform (vector_store (indexed_agent unnormalised_config [inquiry_chunk]))
     ''and and General inquiry'' unnormalised_config
   = [(''policy.txt_p0_c0'', Fin (4053239664633447 / 2251799813685248))]"
  by (simp add: indexed_inquiry retrieve_eval unnormalised_config_def float_eval)

text \<open>
  The default configuration on one indexed chunk: the hybrid score
  \<open>0.7 * 1.0 + 0.3 * 1.0000000000000002\<close> is 1.0, and the re-rank pass keeps it.
\<close>
theorem hybrid_search_sorted_thresholded_capped_witness:
  "fle (Fin 0) (similarity_threshold (config (indexed_agent default_config [inquiry_chunk])))
   \<and> 0 \<le> max_results (config (indexed_agent default_config [inquiry_chunk]))
   \<and> rerank_results (config (indexed_agent default_config [inquiry_chunk]))
   \<and> map relevance_score
        (retrieve_relevant_documents example_platform
           (indexed_agent default_config [inquiry_chunk]) ''and and'') = [Fin 1]
   \<and> sorted_wrt (\<lambda>a b. fge (relevance_score a) (relevance_score b))
        (retrieve_relevant_documents example_platform
           (indexed_agent default_config [inquiry_chunk]) ''and and'')
   \<and> list_all (\<lambda>c. fle (relevance_score c) (Fin 1)
                    \<and> (fge (relevance_score c)
                          (similarity_threshold (config (indexed_agent default_config [inquiry_chunk])))
                         \<or> relevance_score c = Fin 1))
        (retrieve_relevant_documents example_platform
           (indexed_agent default_config [inquiry_chunk]) ''and and'')
   \<and> list_all (\<lambda>c. fle (Fin 0) (relevance_score c))
        (retrieve_relevant_documents example_platform
           (indexed_agent default_config [inquiry_chunk]) ''and and'')
   \<and> int (length (retrieve_relevant_documents example_platform
           (indexed_agent default_config [inquiry_chunk]) ''and and''))
       \<le> max_results (config (indexed_agent default_config [inquiry_chunk]))"
proof -
  have t: "fle (Fin 0) (similarity_threshold (config (indexed_agent default_config [inquiry_chunk])))"
    by (simp add: indexed_inquiry default_config_def float_eval)
  have m: "0 \<le> max_results (config (indexed_agent default_config [inquiry_chunk]))"
    by (simp add: indexed_inquiry default_config_def)
  have r: "rerank_results (config (indexed_agent default_config [inquiry_chunk]))"
    by (simp add: indexed_inquiry default_config_def)
  from hybrid_search_sorted_thresholded_capped
    [of example_platform "indexed_agent default_config [inquiry_chunk]" "''and and''"] t m r
    default_scores
  show ?thesis by simp
qed

text \<open>
  The claim as stated fails, in four ways. With the weights 0.0 and 1.0 and no re-rank pass,
  the score of a chunk for a query with the same words is 1.0000000000000002: the quotient
  of 0.375 by the rounded square of its rounded root. With \<open>max_results = -1\<close> no list has at
  most \<open>max_results\<close> items. With the threshold 2.0 and the dense weight 3.0 the hybrid score
  3.0 passes the threshold and the re-rank pass cuts it to 1.0, below the threshold. With the
  threshold -1.0 a chunk of the opposite embedding has the score -1.0.
\<close>
theorem score_above_one_counterexample:
  "map relevance_score
     (retrieve_relevant_documents example_platform
        (indexed_agent sparse_only_config [inquiry_chunk]) ''and and'')
     = [Fin (4503599627370497 / 4503599627370496)]
   \<and> flt (Fin 1) (Fin (4503599627370497 / 4503599627370496))
   \<and> feq (fadd (dense_weight sparse_only_config) (sparse_weight sparse_only_config)) (Fin 1)
   \<and> float_pow example_platform (Fin (3 / 8)) (Fin (1 / 2))
        = Inr (Fin (2757880273211543 / 4503599627370496))
   \<and> (2757880273211543 / 4503599627370496 - 1 / 2 ^ 54) ^ 2 < (3 / 8 :: real)
   \<and> (3 / 8 :: real) < (2757880273211543 / 4503599627370496 + 1 / 2 ^ 54) ^ 2
   \<and> \<not> int (length (retrieve_relevant_documents example_platform
              (indexed_agent (sparse_only_config\<lparr>max_results := - 1\<rparr>) [inquiry_chunk]) ''and and''))
         \<le> max_results (sparse_only_config\<lparr>max_results := - 1\<rparr>)
   \<and> map relevance_score
        (retrieve_relevant_documents example_platform
           (indexed_agent high_threshold_config [inquiry_chunk]) ''and and'') = [Fin 1]
   \<and> flt (Fin 1) (similarity_threshold high_threshold_config)
   \<and> map relevance_score
        (retrieve_relevant_documents example_platform
           (indexed_agent dense_only_config [refund_chunk]) ''and and'') = [Fin (- 1)]
   \<and> flt (Fin (- 1)) (Fin 0)"
proof -
  have a: "flt (Fin 1) (Fin (4503599627370497 / 4503599627370496))"
    by (simp add: flt_def)
  have b: "feq (fadd (dense_weight sparse_only_config) (sparse_weight sparse_only_config)) (Fin 1)"
    by (simp add: sparse_only_config_def feq_def float_eval)
  have c: "float_pow example_platform (Fin (3 / 8)) (Fin (1 / 2))
        = Inr (Fin (2757880273211543 / 4503599627370496))"
    by (simp add: example_platform_def sqrt_double_three_eighths)
  have d: "(2757880273211543 / 4503599627370496 - 1 / 2 ^ 54) ^ 2 < (3 / 8 :: real)"
    "(3 / 8 :: real) < (2757880273211543 / 4503599627370496 + 1 / 2 ^ 54) ^ 2"
    by (simp_all add: power2_eq_square)
  have e: "\<not> int (length (retrieve_relevant_documents example_platform
              (indexed_agent (sparse_only_config\<lparr>max_results := - 1\<rparr>) [inquiry_chunk]) ''and and''))
         \<le> max_results (sparse_only_config\<lparr>max_results := - 1\<rparr>)"
    by (simp add: negative_max_results_scores)
  have f: "flt (Fin 1) (similarity_threshold high_threshold_config)"
    by (simp add: high_threshold_config_def flt_def)
  have g: "flt (Fin (- 1)) (Fin 0)"
    by (simp add: flt_def)
  show ?thesis
    using sparse_only_scores a b c d e high_threshold_scores f dense_only_scores g
    by (intro conjI) assumption+
qed

subsection \<open>The entities of a query\<close>

lemma map_of_map_filter_distinct:
  assumes "distinct (map fst ps)"
  shows "map_of (List.map_filter (\<lambda>(k, x). map_option (\<lambda>v. (k, v)) (h x)) ps) f
           = (case map_of ps f of None \<Rightarrow> None | Some x \<Rightarrow> h x)"
  using assms
proof (induction ps)
  case Nil
  then show ?case by (simp add: List.map_filter_simps)
next
  case (Cons p ps)
  obtain k x where p: "p = (k, x)" by (cases p)
  show ?case
  proof (cases "h x")
    case None
    from Cons.prems p have "map_of ps k = None"
      by (simp add: map_of_eq_None_iff)
    with Cons None p show ?thesis by (auto simp: List.map_filter_simps)
  next
    case (Some v)
    with Cons p show ?thesis by (auto simp: List.map_filter_simps)
  qed
qed

lemma entity_of_values_PStr: "(entity_of_values vs = Some (PStr v)) = (vs = [v])"
  by (cases vs rule: entity_of_values.cases) auto

lemma entity_of_values_PList: "(entity_of_values vs = Some (PList ws)) = (vs = ws \<and> 2 \<le> length vs)"
  by (cases vs rule: entity_of_values.cases) auto

lemma entity_of_values_PInt: "entity_of_values vs \<noteq> Some (PInt i)"
  by (cases vs rule: entity_of_values.cases) auto

lemma parsed_entities_lookup:
  "map_of (parsed_entities (parse_query q)) f =
     (case map_of entity_patterns f of
        None \<Rightarrow> None
      | Some (r, n) \<Rightarrow> entity_of_values (matched_values r n q))"
proof -
  have d: "distinct (map fst entity_patterns)" by (simp add: entity_patterns_def)
  define h where "h = (\<lambda>(r, n). entity_of_values (matched_values r n q))"
  have pe: "parsed_entities (parse_query q) = extract_entities q"
    by (simp add: parse_query_def Let_def)
  have "extract_entities q =
      List.map_filter (\<lambda>(k, x). map_option (\<lambda>v. (k, v)) (h x)) entity_patterns"
    unfolding extract_entities_def h_def by (simp add: split_def)
  then have "map_of (extract_entities q) f =
      (case map_of entity_patterns f of None \<Rightarrow> None | Some x \<Rightarrow> h x)"
    by (simp only: map_of_map_filter_distinct [OF d])
  then show ?thesis
    unfolding pe h_def .
qed

text \<open>
  Claim C7, as the code has it. A field of the extracted entities is present exactly when
  its pattern has a match with a non-empty group; it holds the single matched text when there
  is one match, and the list of all matched texts, in the order of the matches, when there
  are two or more. Only the six fields of \<open>entity_patterns\<close> occur.
\<close>
theorem extracted_value_is_single_match_or_list:
  "map_of (parsed_entities (parse_query q)) f =
     (case map_of entity_patterns f of
        None \<Rightarrow> None
      | Some (r, n) \<Rightarrow> entity_of_values (matched_values r n q))
   \<and> (map_of (parsed_entities (parse_query q)) f = Some (PStr v))
       = (\<exists>r n. map_of entity_patterns f = Some (r, n) \<and> matched_values r n q = [v])
   \<and> (map_of (parsed_entities (parse_query q)) f = Some (PList vs))
       = (\<exists>r n. map_of entity_patterns f = Some (r, n) \<and> matched_values r n q = vs \<and> 2 \<le> length vs)
   \<and> map_of (parsed_entities (parse_query q)) f \<noteq> Some (PInt i)"
  unfolding parsed_entities_lookup
  by (auto simp: entity_of_values_PStr entity_of_values_PList entity_of_values_PInt
      split: option.splits)

text \<open>
  The claim as stated fails: the query \<open>knee surgery\<close> has two matches of the procedure
  pattern, and the field holds the list of both.
\<close>
theorem first_match_counterexample:
  "map_of (parsed_entities (parse_query ''knee surgery'')) ''procedure''
     = Some (PList [''knee'', ''surgery''])"
  by code_simp

subsection \<open>The weights of the configuration\<close>

lemma float_sum_rounds:
  "fne (fadd (float_of_real (- 1.99)) (float_of_real 2.99)) (Fin 1)"
  "feq (fadd (float_of_real 0.7) (float_of_real 0.30000000000000004)) (Fin 1)"
  by (simp_all add: fne_def feq_def float_eval)

text \<open>
  Claim C6, as the code has it. Constructing a \<open>RetrievalConfig\<close> succeeds for all
  arguments. The weights are checked by \<open>validate_configuration\<close> only, which reports the
  issue exactly when the float sum of the settings' weights differs from 1.0; \<open>main.py\<close> then
  exits with status 1, and otherwise the orchestrator builds its configuration from the
  settings, with weights whose float sum is 1.0.
\<close>
theorem weights_checked_at_startup_only:
  "RetrievalConfig_init dw sw mr th rr =
     Inr \<lparr>dense_weight = dw, sparse_weight = sw, max_results = mr,
          similarity_threshold = th, rerank_results = rr\<rparr>
   \<and> (''Dense weight + Sparse weight must equal 1.0'' \<in> set (validate_configuration [] st))
       = fne (fadd (settings_dense_weight st) (settings_sparse_weight st)) (Fin 1)
   \<and> (case startup dir_issues st of
         Inl code \<Rightarrow> code = 1
       | Inr cfg \<Rightarrow>
           feq (fadd (dense_weight cfg) (sparse_weight cfg)) (Fin 1)
           \<and> cfg = \<lparr>dense_weight = settings_dense_weight st,
                    sparse_weight = settings_sparse_weight st,
                    max_results = settings_max_results st,
                    similarity_threshold = settings_similarity_threshold st,
                    rerank_results = True\<rparr>)"
  by (auto simp: RetrievalConfig_init_def validate_configuration_def startup_def fne_def)

text \<open>
  The claim as stated fails: a configuration with the weights 0.9 and 0.9 is constructed, and
  a search with it runs and returns a score of 1.8000000000000003.
\<close>
theorem weights_not_rejected_counterexample:
  "RetrievalConfig_init (float_of_real 0.9) (float_of_real 0.9) 10 (float_of_real 0.6) True
     = Inr unnormalised_config
   \<and> fne (fadd (dense_weight unnormalised_config) (sparse_weight unnormalised_config)) (Fin 1)
   \<and> similarity_search example_platform
        (vector_store (indexed_agent unnormalised_config [inquiry_chunk]))
        ''and and General inquiry'' unnormalised_config
      = [(''policy.txt_p0_c0'', Fin (4053239664633447 / 2251799813685248))]"
proof -
  have a: "RetrievalConfig_init (float_of_real 0.9) (float_of_real 0.9) 10 (float_of_real 0.6) True
     = Inr unnormalised_config"
    by (simp add: RetrievalConfig_init_def unnormalised_config_def)
  have b: "fne (fadd (dense_weight unnormalised_config) (sparse_weight unnormalised_config)) (Fin 1)"
    by (simp add: unnormalised_config_def fne_def feq_def float_eval)
  show ?thesis using a b unnormalised_search by (intro conjI) assumption+
qed

section \<open>Properties of the semantic chunker\<close>

subsection \<open>Preprocessing leaves one paragraph\<close>

lemma rmatch_length_le:
  "st' \<in> set (rmatch r st) \<Longrightarrow> length (fst (snd st')) \<le> length (fst (snd st))"
proof (induction r st arbitrary: st' rule: rmatch.induct)
  case (1 p prev rest caps)
  then show ?case by (auto split: list.splits if_splits)
next
  case (2 st)
  then show ?case by simp
next
  case (3 r1 r2 st)
  from "3.prems" obtain st1 where st1: "st1 \<in> set (rmatch r1 st)" "st' \<in> set (rmatch r2 st1)"
    by auto
  from "3.IH"(1) [OF st1(1)] "3.IH"(2) [OF st1(1) st1(2)] show ?case by linarith
next
  case (4 r1 r2 st)
  from "4.prems" have "st' \<in> set (rmatch r1 st) \<or> st' \<in> set (rmatch r2 st)" by simp
  then show ?case using "4.IH"(1) [of st'] "4.IH"(2) [of st'] by auto
next
  case (5 r prev rest caps)
  from "5.prems" consider
    (iter) st1 where "st1 \<in> set (rmatch r (prev, rest, caps))"
      "length (fst (snd st1)) < length rest" "st' \<in> set (rmatch (Star r) st1)"
    | (stop) "st' = (prev, rest, caps)"
    by (auto split: if_splits)
  then show ?case
  proof cases
    case iter
    from "5.IH"(2) [OF iter(1) iter(2) iter(3)] iter(2) show ?thesis by simp
  next
    case stop
    then show ?thesis by simp
  qed
next
  case (6 n r prev rest caps)
  from "6.prems" obtain st1 where "st1 \<in> set (rmatch r (prev, rest, caps))"
    "fst (snd st') = fst (snd st1)" by auto
  with "6.IH" [of st1] show ?case by simp
next
  case (7 prev rest caps)
  then show ?case by (auto split: if_splits)
next
  case (8 r st)
  from "8.prems" have "st' = st" by (auto split: if_splits)
  then show ?case by simp
qed

lemma re_sub_unmatched_Nil:
  "rmatch r (prev, [], []) = [] \<Longrightarrow> re_sub r repl prev [] = []"
  by (subst re_sub.simps) simp

lemma re_sub_unmatched_Cons:
  "rmatch r (prev, c # cs, []) = [] \<Longrightarrow> re_sub r repl prev (c # cs) = c # re_sub r repl (Some c) cs"
  by (subst re_sub.simps) simp

lemma re_sub_matched:
  "rmatch r (prev, s, []) = st # sts \<Longrightarrow> length (fst (snd st)) < length s \<Longrightarrow>
     re_sub r repl prev s = repl @ re_sub r repl (fst st) (fst (snd st))"
  by (subst re_sub.simps) simp

text \<open>Where the pattern matches at every character that has Q, no such character survives.\<close>
lemma re_sub_removes:
  assumes m: "\<And>prev c cs. Q c \<Longrightarrow>
      (\<exists>st sts. rmatch r (prev, c # cs, []) = st # sts \<and> length (fst (snd st)) < Suc (length cs))"
  shows "x \<in> set (re_sub r repl prev s) \<Longrightarrow> x \<in> set repl \<or> \<not> Q x"
proof (induction s arbitrary: prev rule: length_induct)
  case (1 s)
  show ?case
  proof (cases s)
    case Nil
    then show ?thesis
      using "1.prems" by (subst (asm) re_sub.simps) (auto split: list.splits)
  next
    case (Cons c cs)
    show ?thesis
    proof (cases "Q c")
      case True
      from m [OF True, of prev cs] obtain st sts where
        st: "rmatch r (prev, c # cs, []) = st # sts" "length (fst (snd st)) < Suc (length cs)" by blast
      from st Cons have eq: "re_sub r repl prev s = repl @ re_sub r repl (fst st) (fst (snd st))"
        by (intro re_sub_matched) auto
      from st(2) Cons have "length (fst (snd st)) < length s" by simp
      with "1.IH" have "x \<in> set (re_sub r repl (fst st) (fst (snd st))) \<Longrightarrow> x \<in> set repl \<or> \<not> Q x"
        by blast
      with "1.prems" eq show ?thesis by auto
    next
      case False
      have ih: "x \<in> set (re_sub r repl p t) \<Longrightarrow> x \<in> set repl \<or> \<not> Q x" if "length t < length s" for p t
        using "1.IH" that by blast
      show ?thesis
      proof (cases "rmatch r (prev, c # cs, [])")
        case Nil
        then have "re_sub r repl prev s = c # re_sub r repl (Some c) cs"
          unfolding Cons by (rule re_sub_unmatched_Cons)
        with "1.prems" False ih [of cs "Some c"] Cons show ?thesis by auto
      next
        case Cons': (Cons st sts)
        show ?thesis
        proof (cases "length (fst (snd st)) < length s")
          case True
          with Cons' Cons have "re_sub r repl prev s = repl @ re_sub r repl (fst st) (fst (snd st))"
            by (intro re_sub_matched) auto
          with "1.prems" ih [OF True] show ?thesis by auto
        next
          case F: False
          with Cons' Cons have "re_sub r repl prev s = repl @ c # re_sub r repl (Some c) cs"
            by (subst re_sub.simps) simp
          with "1.prems" False ih [of cs "Some c"] Cons show ?thesis by auto
        qed
      qed
    qed
  qed
qed

lemma rmatch_Star_nonempty: "\<exists>st sts. rmatch (Star r) st0 = st # sts"
proof -
  have "rmatch (Star r) st0 \<noteq> []" by (cases st0) simp
  then show ?thesis by (simp add: neq_Nil_conv)
qed

lemma plus_space_matches:
  assumes "isspace c"
  shows "\<exists>st sts. rmatch (Plus space) (prev, c # cs, []) = st # sts
            \<and> length (fst (snd st)) < Suc (length cs)"
proof -
  have eq: "rmatch (Plus space) (prev, c # cs, []) = rmatch (Star space) (Some c, cs, [])"
    using assms by (simp add: Plus_def space_def)
  from rmatch_Star_nonempty [of space "(Some c, cs, [])"] obtain st sts where
    st: "rmatch (Star space) (Some c, cs, []) = st # sts" by blast
  then have "st \<in> set (rmatch (Star space) (Some c, cs, []))" by simp
  from rmatch_length_le [OF this] have "length (fst (snd st)) \<le> length cs" by simp
  with eq st show ?thesis by auto
qed

lemma collapse_whitespace_chars:
  "x \<in> set (re_sub (Plus space) '' '' prev s) \<Longrightarrow> x = CHR '' '' \<or> \<not> isspace x"
  using re_sub_removes [of isspace "Plus space" x "'' ''" prev s] plus_space_matches by auto

lemma newline_isspace: "isspace (CHR 0x0A)"
  by (simp add: isspace_def py_whitespace_def)

lemma rmatch_Seq_Chr_fails:
  "s = [] \<or> \<not> P (hd s) \<Longrightarrow> rmatch (Seq (Chr P) r) (prev, s, caps) = []"
  by (cases s) auto

lemma re_sub_no_first_char:
  "\<forall>c \<in> set s. \<not> P c \<Longrightarrow> re_sub (Seq (Chr P) r) repl prev s = s"
proof (induction s arbitrary: prev)
  case Nil
  then show ?case by (simp add: re_sub_unmatched_Nil)
next
  case (Cons c cs)
  then have "rmatch (Seq (Chr P) r) (prev, c # cs, []) = []" by simp
  from re_sub_unmatched_Cons [OF this] Cons show ?case by simp
qed

lemma re_sub_Chr:
  "re_sub (Chr P) [] prev s = filter (\<lambda>c. \<not> P c) s"
proof (induction s arbitrary: prev)
  case Nil
  then show ?case by (simp add: re_sub_unmatched_Nil)
next
  case (Cons c cs)
  show ?case
  proof (cases "P c")
    case True
    then have "rmatch (Chr P) (prev, c # cs, []) = [(Some c, cs, [])]" by simp
    from re_sub_matched [OF this] True Cons show ?thesis by simp
  next
    case False
    then have "rmatch (Chr P) (prev, c # cs, []) = []" by simp
    from re_sub_unmatched_Cons [OF this] False Cons show ?thesis by simp
  qed
qed

lemma set_py_strip: "set (py_strip s) \<subseteq> set s"
  by (auto simp: py_strip_def dest!: set_dropWhileD)

lemma paragraph_breaks_eq:
  "paragraph_breaks = Seq (Chr (\<lambda>c. c = CHR 0x0A)) (Seq (Star space) (Chr (\<lambda>c. c = CHR 0x0A)))"
  by (simp add: paragraph_breaks_def)

lemma preprocess_content_no_newline: "CHR 0x0A \<notin> set (preprocess_content c)"
proof -
  let ?s1 = "re_sub (Plus space) '' '' None c"
  have n1: "CHR 0x0A \<notin> set ?s1"
    using collapse_whitespace_chars [of "CHR 0x0A" None c] newline_isspace by auto
  then have s2: "re_sub paragraph_breaks [CHR 0x0A, CHR 0x0A] None ?s1 = ?s1"
    unfolding paragraph_breaks_eq by (intro re_sub_no_first_char) auto
  have "set (preprocess_content c) \<subseteq> set ?s1"
    unfolding preprocess_content_def s2 special_characters_def re_sub_Chr
    using set_py_strip by fastforce
  with n1 show ?thesis by auto
qed

lemma re_split_aux_no_first_char:
  "\<forall>c \<in> set s. \<not> P c \<Longrightarrow> re_split_aux (Seq (Chr P) r) prev s cur = [cur @ s]"
proof (induction s arbitrary: prev cur)
  case Nil
  then show ?case by (subst re_split_aux.simps) simp
next
  case (Cons c cs)
  then have "rmatch (Seq (Chr P) r) (prev, c # cs, []) = []" by simp
  then have "re_split_aux (Seq (Chr P) r) prev (c # cs) cur
      = re_split_aux (Seq (Chr P) r) (Some c) cs (cur @ [c])"
    by (subst re_split_aux.simps) simp
  with Cons show ?case by simp
qed

lemma extract_paragraphs_preprocessed:
  "length (extract_paragraphs cfg (preprocess_content c)) \<le> 1"
proof -
  have "re_split paragraph_breaks (preprocess_content c) = [preprocess_content c]"
    unfolding re_split_def paragraph_breaks_eq
    using preprocess_content_no_newline [of c]
    by (subst re_split_aux_no_first_char) auto
  then show ?thesis by (simp add: extract_paragraphs_def)
qed

subsection \<open>Strings without white space at the ends\<close>

lemma py_strip_tidy: "tidy s \<Longrightarrow> py_strip s = s"
proof -
  assume t: "tidy s"
  then obtain c cs where s: "s = c # cs" by (cases s) (auto simp: tidy_def)
  with t have a: "dropWhile isspace s = s" by (simp add: tidy_def)
  from t have "rev s \<noteq> []" "\<not> isspace (hd (rev s))" by (simp_all add: tidy_def hd_rev)
  then have "dropWhile isspace (rev s) = rev s" by (cases "rev s") auto
  with a show ?thesis by (simp add: py_strip_def)
qed

lemma last_dropWhile: "dropWhile P xs \<noteq> [] \<Longrightarrow> last (dropWhile P xs) = last xs"
  by (induction xs) (auto split: if_splits)

lemma py_strip_empty_or_tidy: "py_strip s = [] \<or> tidy (py_strip s)"
proof (cases "py_strip s = []")
  case True
  then show ?thesis by simp
next
  case False
  let ?t = "dropWhile isspace s"
  let ?u = "dropWhile isspace (rev ?t)"
  from False have u: "?u \<noteq> []" by (simp add: py_strip_def)
  have t: "?t \<noteq> []"
  proof
    assume e: "?t = []"
    have "?u = []" unfolding e by simp
    with u show False by simp
  qed
  from u have "\<not> isspace (hd ?u)" by (rule hd_dropWhile)
  then have l: "\<not> isspace (last (rev ?u))" by (simp add: last_rev)
  from last_dropWhile [OF u] have "last ?u = hd ?t" using t by (simp add: last_rev)
  moreover from t have "\<not> isspace (hd ?t)" by (rule hd_dropWhile)
  ultimately have h: "\<not> isspace (hd (rev ?u))" using u by (simp add: hd_rev)
  from u l h show ?thesis by (simp add: tidy_def py_strip_def)
qed

lemma length_py_strip_le: "length (py_strip s) \<le> length s"
proof -
  have "length (dropWhile isspace (rev (dropWhile isspace s))) \<le> length (rev (dropWhile isspace s))"
    by (rule length_dropWhile_le)
  also have "\<dots> \<le> length s" by (simp add: length_dropWhile_le)
  finally show ?thesis by (simp add: py_strip_def)
qed

lemma tidy_append_space: "tidy a \<Longrightarrow> tidy b \<Longrightarrow> tidy (a @ '' '' @ b)"
  by (cases a) (auto simp: tidy_def)

lemma py_split_aux_words:
  assumes "\<forall>c \<in> set acc. \<not> isspace c" "w \<in> set (py_split_aux acc s)"
  shows "w \<noteq> [] \<and> (\<forall>c \<in> set w. \<not> isspace c)"
  using assms
proof (induction acc s rule: py_split_aux.induct)
  case (1 acc)
  then show ?case by (auto split: if_splits)
next
  case (2 acc c cs)
  show ?case
  proof (cases "isspace c")
    case True
    with "2.prems" "2.IH"(1,2) show ?thesis by (auto split: if_splits)
  next
    case False
    with "2.prems" "2.IH"(3) show ?thesis by auto
  qed
qed

lemma py_split_words_tidy: "w \<in> set (py_split s) \<Longrightarrow> tidy w"
proof -
  assume "w \<in> set (py_split s)"
  with py_split_aux_words [of "[]" w s] have w: "w \<noteq> []" "\<forall>c \<in> set w. \<not> isspace c"
    by (auto simp: py_split_def)
  then show ?thesis by (simp add: tidy_def)
qed

lemma tidy_py_join: "ws \<noteq> [] \<Longrightarrow> \<forall>w \<in> set ws. tidy w \<Longrightarrow> tidy (py_join '' '' ws)"
proof (induction "'' ''" ws rule: py_join.induct)
  case 1
  then show ?case by simp
next
  case (2 x)
  then show ?case by simp
next
  case (3 x y ys)
  then have "tidy x" "tidy (py_join '' '' (y # ys))" by auto
  then show ?case using tidy_append_space by simp
qed

lemma groups_of_groups:
  "g \<in> set (groups_of fuel n xs) \<Longrightarrow> 0 < n \<Longrightarrow> g \<noteq> [] \<and> set g \<subseteq> set xs"
proof (induction fuel arbitrary: xs)
  case 0
  then show ?case by simp
next
  case (Suc k)
  show ?case
  proof (cases "xs = []")
    case True
    with Suc.prems show ?thesis by simp
  next
    case False
    with Suc.prems have "g = take n xs \<or> g \<in> set (groups_of k n (drop n xs))" by simp
    then show ?thesis
    proof
      assume "g = take n xs"
      with False Suc.prems(2) show ?thesis by (auto dest: in_set_takeD)
    next
      assume "g \<in> set (groups_of k n (drop n xs))"
      from Suc.IH [OF this Suc.prems(2)] show ?thesis by (auto dest: in_set_dropD)
    qed
  qed
qed

lemma extract_sentences_tidy: "s \<in> set (extract_sentences cfg txt) \<Longrightarrow> tidy s"
proof (cases "preserve_sentences cfg")
  case True
  assume "s \<in> set (extract_sentences cfg txt)"
  with True obtain t where "s = py_strip t" "s \<noteq> []"
    by (auto simp: extract_sentences_def)
  with py_strip_empty_or_tidy [of t] show ?thesis by simp
next
  case False
  assume "s \<in> set (extract_sentences cfg txt)"
  with False obtain g where g: "g \<in> set (groups_of (length (py_split txt)) 20 (py_split txt))"
    "s = py_join '' '' g" by (auto simp: extract_sentences_def)
  from groups_of_groups [OF g(1)] have "g \<noteq> []" "set g \<subseteq> set (py_split txt)" by simp_all
  with py_split_words_tidy have "\<forall>w \<in> set g. tidy w" by blast
  with \<open>g \<noteq> []\<close> g(2) show ?thesis by (simp add: tidy_py_join)
qed

lemma add_overlap_tidy:
  assumes "0 \<le> overlap_size cfg" "tidy sentence" "\<forall>c \<in> set chunks. tidy (content c)"
  shows "tidy (add_overlap cfg chunks sentence)"
proof (cases "chunks = [] \<or> overlap_size cfg = 0")
  case True
  with assms(2) show ?thesis by (auto simp: add_overlap_def)
next
  case False
  let ?prev = "content (last chunks)"
  let ?words = "py_split ?prev"
  from False assms(3) have tp: "tidy ?prev" by simp
  show ?thesis
  proof (cases "int (length ?words) > overlap_size cfg")
    case True
    let ?sl = "py_slice_from (- overlap_size cfg) ?words"
    from False assms(1) have pos: "0 < overlap_size cfg" by simp
    with True have "?sl = drop (length ?words - nat (overlap_size cfg)) ?words"
      by (simp add: py_slice_from_def)
    moreover from pos True have "length ?words - nat (overlap_size cfg) < length ?words" by linarith
    ultimately have ne: "?sl \<noteq> []" and sub: "set ?sl \<subseteq> set ?words"
      by (auto dest: in_set_dropD)
    from sub py_split_words_tidy have "\<forall>w \<in> set ?sl. tidy w" by blast
    with ne have "tidy (py_join '' '' ?sl)" by (rule tidy_py_join)
    from tidy_append_space [OF this assms(2)] False True show ?thesis
      by (simp add: add_overlap_def Let_def)
  next
    case F: False
    from tidy_append_space [OF tp assms(2)] False F show ?thesis
      by (simp add: add_overlap_def Let_def)
  qed
qed

subsection \<open>The loop of the paragraph chunker\<close>

lemma content_create_chunk: "content (create_chunk c source pidx cidx) = c"
  by (simp add: create_chunk_def)

lemma chunk_step_cases:
  assumes "chunk_step cfg source pidx (chunks, cur) s = (chunks', cur')"
  obtains
    (flush) "cur \<noteq> []" "int (length (cur @ '' '' @ s)) > max_chunk_size cfg"
      "int (length cur) \<ge> min_chunk_size cfg"
      "chunks' = chunks @ [create_chunk (py_strip cur) source pidx (length chunks)]"
      "cur' = add_overlap cfg chunks' s"
  | (drop) "cur \<noteq> []" "int (length (cur @ '' '' @ s)) > max_chunk_size cfg"
      "int (length cur) < min_chunk_size cfg" "chunks' = chunks" "cur' = add_overlap cfg chunks' s"
  | (extend) "cur \<noteq> []" "int (length (cur @ '' '' @ s)) \<le> max_chunk_size cfg"
      "chunks' = chunks" "cur' = cur @ '' '' @ s"
  | (start) "cur = []" "chunks' = chunks" "cur' = s"
  using assms unfolding chunk_step_def Let_def
  by (cases "cur = []"; cases "int (length (cur @ '' '' @ s)) > max_chunk_size cfg";
      cases "int (length cur) \<ge> min_chunk_size cfg") (simp_all split: if_splits)

lemma chunk_step_tidy:
  assumes ov: "0 \<le> overlap_size cfg" and s: "tidy s"
    and cur: "cur = [] \<or> tidy cur"
    and chunks: "\<forall>c \<in> set chunks. tidy (content c) \<and> min_chunk_size cfg \<le> int (length (content c))"
    and step: "chunk_step cfg source pidx (chunks, cur) s = (chunks', cur')"
  shows "(cur' = [] \<or> tidy cur')
    \<and> (\<forall>c \<in> set chunks'. tidy (content c) \<and> min_chunk_size cfg \<le> int (length (content c)))"
  using step
proof (cases rule: chunk_step_cases)
  case flush
  with cur have t: "tidy cur" by simp
  then have "py_strip cur = cur" by (rule py_strip_tidy)
  with flush t chunks have c': "\<forall>c \<in> set chunks'. tidy (content c) \<and> min_chunk_size cfg \<le> int (length (content c))"
    by (simp add: content_create_chunk)
  then have "\<forall>c \<in> set chunks'. tidy (content c)" by simp
  from add_overlap_tidy [OF ov s this] flush(5) c' show ?thesis by simp
next
  case drop
  from chunks have "\<forall>c \<in> set chunks. tidy (content c)" by simp
  from add_overlap_tidy [OF ov s this] drop chunks show ?thesis by simp
next
  case extend
  with cur have "tidy cur" by simp
  from tidy_append_space [OF this s] extend chunks show ?thesis by simp
next
  case start
  with s chunks show ?thesis by simp
qed

lemma chunk_loop_tidy:
  assumes ov: "0 \<le> overlap_size cfg"
  shows "\<forall>s \<in> set ss. tidy s \<Longrightarrow> cur = [] \<or> tidy cur
    \<Longrightarrow> \<forall>c \<in> set chunks. tidy (content c) \<and> min_chunk_size cfg \<le> int (length (content c))
    \<Longrightarrow> foldl (chunk_step cfg source pidx) (chunks, cur) ss = (chunks', cur')
    \<Longrightarrow> (cur' = [] \<or> tidy cur')
      \<and> (\<forall>c \<in> set chunks'. tidy (content c) \<and> min_chunk_size cfg \<le> int (length (content c)))"
proof (induction ss arbitrary: chunks cur)
  case Nil
  then show ?case by simp
next
  case (Cons s ss)
  obtain c1 k1 where st: "chunk_step cfg source pidx (chunks, cur) s = (c1, k1)"
    by (cases "chunk_step cfg source pidx (chunks, cur) s")
  from Cons.prems(1) have s: "tidy s" and ss: "\<forall>s \<in> set ss. tidy s" by simp_all
  from chunk_step_tidy [OF ov s Cons.prems(2,3) st]
  have a: "k1 = [] \<or> tidy k1"
    and b: "\<forall>c \<in> set c1. tidy (content c) \<and> min_chunk_size cfg \<le> int (length (content c))"
    by simp_all
  from Cons.prems(4) st have "foldl (chunk_step cfg source pidx) (c1, k1) ss = (chunks', cur')"
    by simp
  from Cons.IH [OF ss a b this] show ?case .
qed

lemma within_max_or_seed_append:
  assumes "\<forall>i < length chunks. within_max_or_seed cfg S (take i chunks) (chunks ! i)"
    and "within_max_or_seed cfg S chunks x"
  shows "\<forall>i < length (chunks @ [x]). within_max_or_seed cfg S (take i (chunks @ [x])) ((chunks @ [x]) ! i)"
proof (intro allI impI)
  fix i assume "i < length (chunks @ [x])"
  then consider "i < length chunks" | "i = length chunks" by fastforce
  then show "within_max_or_seed cfg S (take i (chunks @ [x])) ((chunks @ [x]) ! i)"
  proof cases
    case 1
    with assms(1) show ?thesis by (simp add: nth_append)
  next
    case 2
    with assms(2) show ?thesis by simp
  qed
qed

lemma add_overlap_nonempty: "s \<noteq> [] \<Longrightarrow> add_overlap cfg chunks s \<noteq> []"
  by (simp add: add_overlap_def Let_def)

lemma flushed_chunk_within:
  assumes "cur = [] \<or> int (length cur) \<le> max_chunk_size cfg
             \<or> (\<exists>s \<in> set S. cur = add_overlap cfg chunks s)"
    and "cur \<noteq> []"
  shows "within_max_or_seed cfg S chunks (create_chunk (py_strip cur) source pidx n)"
proof -
  from assms consider "int (length cur) \<le> max_chunk_size cfg"
    | "\<exists>s \<in> set S. cur = add_overlap cfg chunks s" by blast
  then show ?thesis
  proof cases
    case 1
    with length_py_strip_le [of cur] show ?thesis
      by (simp add: within_max_or_seed_def content_create_chunk)
  next
    case 2
    then show ?thesis
      by (auto simp: within_max_or_seed_def content_create_chunk list_ex_iff)
  qed
qed

lemma chunk_step_within:
  assumes s: "s \<in> set S" "s \<noteq> []"
    and chunks: "\<forall>i < length chunks. within_max_or_seed cfg S (take i chunks) (chunks ! i)"
    and empty: "cur = [] \<longrightarrow> chunks = []"
    and cur: "cur = [] \<or> int (length cur) \<le> max_chunk_size cfg
                \<or> (\<exists>s \<in> set S. cur = add_overlap cfg chunks s)"
    and step: "chunk_step cfg source pidx (chunks, cur) s = (chunks', cur')"
  shows "(\<forall>i < length chunks'. within_max_or_seed cfg S (take i chunks') (chunks' ! i))
    \<and> (cur' = [] \<longrightarrow> chunks' = [])
    \<and> (cur' = [] \<or> int (length cur') \<le> max_chunk_size cfg
          \<or> (\<exists>s \<in> set S. cur' = add_overlap cfg chunks' s))"
  using step
proof (cases rule: chunk_step_cases)
  case flush
  from flushed_chunk_within [OF cur flush(1)]
  have "within_max_or_seed cfg S chunks (create_chunk (py_strip cur) source pidx (length chunks))" .
  from within_max_or_seed_append [OF chunks this] flush(4)
  have a: "\<forall>i < length chunks'. within_max_or_seed cfg S (take i chunks') (chunks' ! i)" by simp
  from s(2) flush(5) have b: "cur' \<noteq> []" by (simp add: add_overlap_nonempty)
  from s(1) flush(5) have "\<exists>s \<in> set S. cur' = add_overlap cfg chunks' s" by blast
  with a b show ?thesis by simp
next
  case drop
  from s(2) drop(5) have b: "cur' \<noteq> []" by (simp add: add_overlap_nonempty)
  from s(1) drop(5) have "\<exists>s \<in> set S. cur' = add_overlap cfg chunks' s" by blast
  with chunks drop(4) b show ?thesis by simp
next
  case extend
  with chunks show ?thesis by simp
next
  case start
  with empty have e: "chunks' = []" by simp
  from s(1) start(3) have "\<exists>s \<in> set S. cur' = add_overlap cfg [] s"
    by (simp add: add_overlap_def)
  with e show ?thesis by simp
qed

lemma chunk_loop_within:
  "set ss \<subseteq> set S \<Longrightarrow> [] \<notin> set ss
    \<Longrightarrow> \<forall>i < length chunks. within_max_or_seed cfg S (take i chunks) (chunks ! i)
    \<Longrightarrow> cur = [] \<longrightarrow> chunks = []
    \<Longrightarrow> cur = [] \<or> int (length cur) \<le> max_chunk_size cfg
          \<or> (\<exists>s \<in> set S. cur = add_overlap cfg chunks s)
    \<Longrightarrow> foldl (chunk_step cfg source pidx) (chunks, cur) ss = (chunks', cur')
    \<Longrightarrow> (\<forall>i < length chunks'. within_max_or_seed cfg S (take i chunks') (chunks' ! i))
      \<and> (cur' = [] \<or> int (length cur') \<le> max_chunk_size cfg
          \<or> (\<exists>s \<in> set S. cur' = add_overlap cfg chunks' s))"
proof (induction ss arbitrary: chunks cur)
  case Nil
  then show ?case by simp
next
  case (Cons s ss)
  obtain c1 k1 where st: "chunk_step cfg source pidx (chunks, cur) s = (c1, k1)"
    by (cases "chunk_step cfg source pidx (chunks, cur) s")
  from Cons.prems(1,2) have s: "s \<in> set S" "s \<noteq> []" and ss: "set ss \<subseteq> set S" "[] \<notin> set ss"
    by auto
  from chunk_step_within [OF s Cons.prems(3,4,5) st]
  have a: "\<forall>i < length c1. within_max_or_seed cfg S (take i c1) (c1 ! i)"
    and b: "k1 = [] \<longrightarrow> c1 = []"
    and c: "k1 = [] \<or> int (length k1) \<le> max_chunk_size cfg
          \<or> (\<exists>s \<in> set S. k1 = add_overlap cfg c1 s)"
    by simp_all
  from Cons.prems(6) st have "foldl (chunk_step cfg source pidx) (c1, k1) ss = (chunks', cur')"
    by simp
  from Cons.IH [OF ss a b c this] show ?case .
qed

lemma optimize_step_long:
  "min_chunk_size cfg \<le> int (length (content c)) \<Longrightarrow> optimize_step cfg acc c = acc @ [c]"
  by (simp add: optimize_step_def)

lemma optimize_foldl_long:
  "\<forall>c \<in> set chunks. min_chunk_size cfg \<le> int (length (content c))
    \<Longrightarrow> foldl (optimize_step cfg) acc chunks = acc @ chunks"
  by (induction chunks arbitrary: acc) (simp_all add: optimize_step_long)

lemma optimize_chunks_long:
  "\<forall>c \<in> set chunks. min_chunk_size cfg \<le> int (length (content c))
    \<Longrightarrow> optimize_chunks cfg chunks = chunks"
  by (simp add: optimize_chunks_def optimize_foldl_long)

lemma optimize_chunks_single: "optimize_chunks cfg [c] = [c]"
  by (simp add: optimize_chunks_def optimize_step_def)

lemma optimize_chunks_Nil: "optimize_chunks cfg [] = []"
  by (simp add: optimize_chunks_def)

lemma chunk_paragraph_min:
  assumes ov: "0 \<le> overlap_size cfg"
  shows "chunk_paragraph cfg p source pidx = [create_chunk p source pidx 0]
    \<or> (\<forall>c \<in> set (chunk_paragraph cfg p source pidx).
          min_chunk_size cfg \<le> int (length (content c)))"
proof (cases "int (length p) \<le> max_chunk_size cfg")
  case True
  then show ?thesis by (simp add: chunk_paragraph_def)
next
  case False
  obtain chunks cur where l: "chunk_loop cfg source pidx (extract_sentences cfg p) = (chunks, cur)"
    by (cases "chunk_loop cfg source pidx (extract_sentences cfg p)")
  then have f: "foldl (chunk_step cfg source pidx) ([], []) (extract_sentences cfg p) = (chunks, cur)"
    by (simp add: chunk_loop_def)
  have "\<forall>s \<in> set (extract_sentences cfg p). tidy s" by (simp add: extract_sentences_tidy)
  from chunk_loop_tidy [OF ov this _ _ f]
  have cur: "cur = [] \<or> tidy cur"
    and chunks: "\<forall>c \<in> set chunks. tidy (content c) \<and> min_chunk_size cfg \<le> int (length (content c))"
    by simp_all
  show ?thesis
  proof (cases "cur \<noteq> [] \<and> int (length cur) \<ge> min_chunk_size cfg")
    case True
    with cur have "py_strip cur = cur" by (simp add: py_strip_tidy)
    with True chunks False l show ?thesis
      by (simp add: chunk_paragraph_def content_create_chunk)
  next
    case F: False
    with chunks False l show ?thesis by (auto simp: chunk_paragraph_def)
  qed
qed

lemma chunk_paragraph_max:
  "\<forall>i < length (chunk_paragraph cfg p source pidx).
     within_max_or_seed cfg (extract_sentences cfg p)
       (take i (chunk_paragraph cfg p source pidx)) (chunk_paragraph cfg p source pidx ! i)"
proof (cases "int (length p) \<le> max_chunk_size cfg")
  case True
  then show ?thesis
    by (simp add: chunk_paragraph_def within_max_or_seed_def content_create_chunk)
next
  case False
  let ?S = "extract_sentences cfg p"
  obtain chunks cur where l: "chunk_loop cfg source pidx ?S = (chunks, cur)"
    by (cases "chunk_loop cfg source pidx ?S")
  then have f: "foldl (chunk_step cfg source pidx) ([], []) ?S = (chunks, cur)"
    by (simp add: chunk_loop_def)
  have ne: "[] \<notin> set ?S" using extract_sentences_tidy [of "[]" cfg p] by (auto simp: tidy_def)
  from chunk_loop_within [OF subset_refl ne _ _ _ f]
  have chunks: "\<forall>i < length chunks. within_max_or_seed cfg ?S (take i chunks) (chunks ! i)"
    and cur: "cur = [] \<or> int (length cur) \<le> max_chunk_size cfg
          \<or> (\<exists>s \<in> set ?S. cur = add_overlap cfg chunks s)"
    by simp_all
  show ?thesis
  proof (cases "cur \<noteq> [] \<and> int (length cur) \<ge> min_chunk_size cfg")
    case True
    then have "cur \<noteq> []" by simp
    from flushed_chunk_within [OF cur this]
    have "within_max_or_seed cfg ?S chunks (create_chunk (py_strip cur) source pidx (length chunks))" .
    from within_max_or_seed_append [OF chunks this] True False l show ?thesis
      by (simp add: chunk_paragraph_def)
  next
    case F: False
    with chunks False l show ?thesis by (auto simp: chunk_paragraph_def)
  qed
qed

lemma create_chunks_unmerged:
  "create_chunks cfg doc source = optimize_chunks cfg (paragraph_chunks cfg doc source)"
  by (simp add: create_chunks_def paragraph_chunks_def)

lemma paragraph_chunks_cases:
  obtains (none) "paragraph_chunks cfg doc source = []" "chunk_sentences cfg doc = []"
  | (one) p where "paragraph_chunks cfg doc source = chunk_paragraph cfg p source 0"
      "chunk_sentences cfg doc = extract_sentences cfg p"
proof (cases "extract_paragraphs cfg (preprocess_content doc)")
  case Nil
  then have "paragraph_chunks cfg doc source = []" "chunk_sentences cfg doc = []"
    by (simp_all add: paragraph_chunks_def chunk_sentences_def)
  then show ?thesis by (rule none)
next
  case (Cons p ps)
  with extract_paragraphs_preprocessed [of cfg doc]
  have e: "extract_paragraphs cfg (preprocess_content doc) = [p]"
    by simp
  then have "paragraph_chunks cfg doc source = chunk_paragraph cfg p source 0"
    "chunk_sentences cfg doc = extract_sentences cfg p"
    by (simp_all add: paragraph_chunks_def chunk_sentences_def)
  then show ?thesis by (rule one)
qed

subsection \<open>Sizes of the chunks\<close>

text \<open>
  Claim C5, as the code has it. For every document and every configuration with a
  non-negative \<open>overlap_size\<close>: the merge pass \<open>_optimize_chunks\<close> changes nothing, so the
  result is the list of chunks of the paragraph pass; the result has at most one chunk, or
  every chunk (the first and the last too) has at least \<open>min_chunk_size\<close> characters; and every
  chunk has at most \<open>max_chunk_size\<close> characters unless it is the seed of a new chunk, that
  is, one extracted sentence after the overlap taken from the chunks before it. Such a seed
  is emitted whatever its length.
\<close>
theorem create_chunks_sizes:
  assumes "0 \<le> overlap_size cfg"
  shows "create_chunks cfg doc source = optimize_chunks cfg (paragraph_chunks cfg doc source)
    \<and> optimize_chunks cfg (paragraph_chunks cfg doc source) = paragraph_chunks cfg doc source
    \<and> (length (create_chunks cfg doc source) \<le> 1
      \<or> list_all (\<lambda>c. min_chunk_size cfg \<le> int (length (content c)))
           (create_chunks cfg doc source))
    \<and> list_all (\<lambda>i. within_max_or_seed cfg (chunk_sentences cfg doc)
                      (take i (create_chunks cfg doc source)) (create_chunks cfg doc source ! i))
        [0..<length (create_chunks cfg doc source)]"
proof (cases rule: paragraph_chunks_cases [of cfg doc source])
  case none
  then show ?thesis by (simp add: create_chunks_unmerged optimize_chunks_Nil)
next
  case (one p)
  let ?P = "chunk_paragraph cfg p source 0"
  have o: "optimize_chunks cfg ?P = ?P"
    using chunk_paragraph_min [OF assms, of p source 0]
  proof
    assume "?P = [create_chunk p source 0 0]"
    then show ?thesis by (simp add: optimize_chunks_single)
  next
    assume "\<forall>c \<in> set ?P. min_chunk_size cfg \<le> int (length (content c))"
    then show ?thesis by (rule optimize_chunks_long)
  qed
  have r: "create_chunks cfg doc source = ?P"
    by (simp add: create_chunks_unmerged one(1) o)
  from chunk_paragraph_min [OF assms, of p source 0]
  have a: "length ?P \<le> 1 \<or> list_all (\<lambda>c. min_chunk_size cfg \<le> int (length (content c))) ?P"
    by (auto simp: list_all_iff)
  from chunk_paragraph_max [of cfg p source 0]
  have b: "list_all (\<lambda>i. within_max_or_seed cfg (extract_sentences cfg p) (take i ?P) (?P ! i))
      [0..<length ?P]"
    by (simp add: list_all_iff)
  from a b o show ?thesis unfolding r one by simp
qed

text \<open>
  With an overlap of one word, a maximal size of 20 and a minimal size of 5, a document of a
  sentence of 25 characters and one of 12 gives two chunks, both seeds, of 25 and 38
  characters.
\<close>
theorem create_chunks_sizes_witness:
  "0 \<le> overlap_size overlap_config
   \<and> map content (create_chunks overlap_config ''aaaaaaaaaaaaaaaaaaaaaaaaa. bbbbbbbbbbbb.'' ''doc'')
       = [''aaaaaaaaaaaaaaaaaaaaaaaaa'', ''aaaaaaaaaaaaaaaaaaaaaaaaa bbbbbbbbbbbb'']
   \<and> create_chunks overlap_config ''aaaaaaaaaaaaaaaaaaaaaaaaa. bbbbbbbbbbbb.'' ''doc''
       = optimize_chunks overlap_config
           (paragraph_chunks overlap_config ''aaaaaaaaaaaaaaaaaaaaaaaaa. bbbbbbbbbbbb.'' ''doc'')
   \<and> optimize_chunks overlap_config
         (paragraph_chunks overlap_config ''aaaaaaaaaaaaaaaaaaaaaaaaa. bbbbbbbbbbbb.'' ''doc'')
       = paragraph_chunks overlap_config ''aaaaaaaaaaaaaaaaaaaaaaaaa. bbbbbbbbbbbb.'' ''doc''
   \<and> (length (create_chunks overlap_config ''aaaaaaaaaaaaaaaaaaaaaaaaa. bbbbbbbbbbbb.'' ''doc'') \<le> 1
      \<or> list_all (\<lambda>c. min_chunk_size overlap_config \<le> int (length (content c)))
           (create_chunks overlap_config ''aaaaaaaaaaaaaaaaaaaaaaaaa. bbbbbbbbbbbb.'' ''doc''))
   \<and> list_all (\<lambda>i. within_max_or_seed overlap_config
                      (chunk_sentences overlap_config ''aaaaaaaaaaaaaaaaaaaaaaaaa. bbbbbbbbbbbb.'')
                      (take i (create_chunks overlap_config
                                 ''aaaaaaaaaaaaaaaaaaaaaaaaa. bbbbbbbbbbbb.'' ''doc''))
                      (create_chunks overlap_config
                         ''aaaaaaaaaaaaaaaaaaaaaaaaa. bbbbbbbbbbbb.'' ''doc'' ! i))
        [0..<length (create_chunks overlap_config
                       ''aaaaaaaaaaaaaaaaaaaaaaaaa. bbbbbbbbbbbb.'' ''doc'')]"
proof -
  have a: "0 \<le> overlap_size overlap_config" by (simp add: overlap_config_def)
  have b: "map content (create_chunks overlap_config ''aaaaaaaaaaaaaaaaaaaaaaaaa. bbbbbbbbbbbb.'' ''doc'')
       = [''aaaaaaaaaaaaaaaaaaaaaaaaa'', ''aaaaaaaaaaaaaaaaaaaaaaaaa bbbbbbbbbbbb'']"
    by code_simp
  from create_chunks_sizes [OF a, of "''aaaaaaaaaaaaaaaaaaaaaaaaa. bbbbbbbbbbbb.''" "''doc''"] a b
  show ?thesis by (elim conjE, intro conjI) assumption+
qed

text \<open>
  The claim as stated fails: with a maximal size of 20, a minimal size of 5 and no overlap,
  a document whose first sentence has 25 characters gives a first chunk of 25 characters.
  With an overlap of \<open>-1\<close> the seed of a chunk after a chunk of one word starts with a
  space, which is counted before \<open>strip\<close> removes it: with a minimal size of 13, the second
  and the third of four chunks have 12 characters, and the merge pass leaves them.
\<close>
theorem chunk_longer_than_max_counterexample:
  "map content (create_chunks small_config ''aaaaaaaaaaaaaaaaaaaaaaaaa. bbbbbbbbbbbb.'' ''doc'')
     = [''aaaaaaaaaaaaaaaaaaaaaaaaa'', ''bbbbbbbbbbbb'']
   \<and> max_chunk_size small_config = 20
   \<and> length ''aaaaaaaaaaaaaaaaaaaaaaaaa'' = 25
   \<and> \<not> list_all (\<lambda>c. int (length (content c)) \<le> max_chunk_size small_config)
         (create_chunks small_config ''aaaaaaaaaaaaaaaaaaaaaaaaa. bbbbbbbbbbbb.'' ''doc'')
   \<and> map content (create_chunks negative_overlap_config
         ''aaaaaaaaaaaaaaaaaaaaaaaaa. bbbbbbbbbbbb. cccccccccccc. dddddddddddd.'' ''doc'')
     = [''aaaaaaaaaaaaaaaaaaaaaaaaa'', ''bbbbbbbbbbbb'', ''cccccccccccc'', ''dddddddddddd'']
   \<and> min_chunk_size negative_overlap_config = 13
   \<and> length ''bbbbbbbbbbbb'' = 12"
  by code_simp

subsection \<open>Text that no chunk keeps\<close>

text \<open>
  Claim C10. With a maximal size of 30 and a minimal size of 20, the document
  \<open>The policy covers knee surgery. Short one. Tail end here ok.\<close> gives the single chunk
  \<open>The policy covers knee surgery\<close>: the sentence \<open>Short one\<close>, of 9 characters, is not among
  the extracted sentences, and the current chunk at the end of the loop, \<open>Tail end here ok\<close>,
  of 16 characters, is not emitted. Both texts occur in the document and in no chunk.
\<close>
theorem chunking_drops_text:
  "map content (create_chunks lossy_config
       ''The policy covers knee surgery. Short one. Tail end here ok.'' ''doc'')
     = [''The policy covers knee surgery'']
   \<and> chunk_sentences lossy_config ''The policy covers knee surgery. Short one. Tail end here ok.''
     = [''The policy covers knee surgery'', ''Tail end here ok'']
   \<and> snd (chunk_loop lossy_config ''doc'' 0
        (chunk_sentences lossy_config ''The policy covers knee surgery. Short one. Tail end here ok.''))
     = ''Tail end here ok''
   \<and> int (length ''Tail end here ok'') < min_chunk_size lossy_config
   \<and> length ''Short one'' \<le> 10
   \<and> py_contains ''Short one'' ''The policy covers knee surgery. Short one. Tail end here ok.''
   \<and> py_contains ''Tail end here ok'' ''The policy covers knee surgery. Short one. Tail end here ok.''
   \<and> list_all (\<lambda>c. \<not> py_contains ''Short one'' (content c)
                    \<and> \<not> py_contains ''Tail end here ok'' (content c))
        (create_chunks lossy_config
           ''The policy covers knee surgery. Short one. Tail end here ok.'' ''doc'')"
  by code_simp

end
